theory Spec2Isabelle
  imports Main
begin

section \<open>Data model\<close>

text \<open>
  The article viewer of \<^verbatim>\<open>components/ArticleView.tsx\<close> renders a tree of blocks
  fetched from the content API. The values below are the JavaScript objects the
  component reads. A property that the code tests for absence before it reads it
  (\<^verbatim>\<open>if (!data)\<close>, \<^verbatim>\<open>if (!richText)\<close>, \<^verbatim>\<open>if (item.children)\<close>, \<^verbatim>\<open>if (href)\<close>) is an
  \<open>option\<close>; reading through an absent property raises a \<^verbatim>\<open>TypeError\<close>, which is a
  value of the type \<open>error\<close>. The annotations, the plain text and the \<^verbatim>\<open>href\<close>
  property of a span are on every span the content API sends; its \<^verbatim>\<open>text\<close> object
  is not (a mention or an equation has none), so it is an \<open>option\<close> as well.
  Strings are lists of characters, the empty string is the only falsy one.
\<close>

datatype error = TypeError | FetchError | JsonError | RenderError

record annotations =
  bold :: bool
  italic :: bool
  underline :: bool
  strikethrough :: bool
  code :: bool
  color :: string

text \<open>
  A rich-text span: \<open>text_content\<close> is \<^verbatim>\<open>text.content\<close>, \<open>None\<close> when the span has
  no \<^verbatim>\<open>text\<close> object; \<open>href\<close> is the optional hyperlink target and \<open>plain_text\<close>
  the unformatted text of the span.
\<close>

record span =
  annotations :: annotations
  text_content :: "string option"
  href :: "string option"
  plain_text :: string

text \<open>
  The payload of a block, \<^verbatim>\<open>block[block.type]\<close>, with the properties the renderer
  reads. \<open>media_type\<close> is \<^verbatim>\<open>data.type\<close>. \<open>external_ref\<close> and \<open>file_ref\<close> are the objects
  \<^verbatim>\<open>data.external\<close> and \<^verbatim>\<open>data.file\<close>, \<open>None\<close> when the object is absent, and hold
  their \<^verbatim>\<open>url\<close>, \<open>None\<close> when it is \<^verbatim>\<open>undefined\<close>. \<open>icon_emoji\<close> is
  \<^verbatim>\<open>data.icon?.emoji\<close>; \<open>checked\<close> is the truth value of \<^verbatim>\<open>data.checked\<close>.
\<close>

record payload =
  rich_text :: "span list option"
  language :: "string option"
  checked :: bool
  media_type :: "string option"
  external_ref :: "string option option"
  file_ref :: "string option option"
  caption :: "span list option"
  callout_color :: "string option"
  icon_emoji :: "string option"

datatype block =
  Block (block_id: string) (type: string) (payload: "payload option")
        (children: "block list option")

text \<open>An entry of the table of contents, \<^verbatim>\<open>{ id, text, level }\<close>. The level is
  the result of \<^verbatim>\<open>parseInt\<close>, where \<open>None\<close> is \<^verbatim>\<open>NaN\<close>.\<close>

record heading =
  hid :: string
  htext :: string
  level :: "int option"

section \<open>String primitives of the host language\<close>

definition startsWith :: "string \<Rightarrow> string \<Rightarrow> bool" where
  "startsWith s p = (take (length p) s = p)"

text \<open>\<^verbatim>\<open>s.split(sep)\<close> for a one-character separator: the pieces between the
  separators, at least one piece.\<close>

fun js_split :: "char \<Rightarrow> string \<Rightarrow> string list" where
  "js_split sep [] = [[]]"
| "js_split sep (c # cs) =
     (if c = sep then [] # js_split sep cs
      else (case js_split sep cs of
              p # ps \<Rightarrow> (c # p) # ps
            | [] \<Rightarrow> [[c]]))"

text \<open>\<^verbatim>\<open>xs.join('')\<close> on a list of strings.\<close>

definition join :: "string list \<Rightarrow> string" where
  "join xs = concat xs"

text \<open>
  \<^verbatim>\<open>parseInt(s)\<close> without a radix: leading white space is skipped, a sign is read,
  a prefix \<^verbatim>\<open>0x\<close> selects base 16, and the longest run of digits is converted;
  no digit gives \<^verbatim>\<open>NaN\<close> (\<open>None\<close>). White space is the ASCII white space, and the
  value is the exact integer (the host language rounds above \<open>2 ^ 53\<close>).
\<close>

definition isWhiteSpace :: "char \<Rightarrow> bool" where
  "isWhiteSpace c = (c \<in> set [CHR '' '', CHR 0x09, CHR 0x0A, CHR 0x0B, CHR 0x0C, CHR 0x0D])"

definition digitValue :: "char \<Rightarrow> nat" where
  "digitValue c =
     (let n = (of_char c :: nat) in
      if 48 \<le> n \<and> n \<le> 57 then n - 48
      else if 97 \<le> n \<and> n \<le> 122 then n - 87
      else if 65 \<le> n \<and> n \<le> 90 then n - 55
      else 36)"

definition parseInt :: "string \<Rightarrow> int option" where
  "parseInt s =
     (let s1 = dropWhile isWhiteSpace s;
          neg = (case s1 of [] \<Rightarrow> False | c # _ \<Rightarrow> c = CHR ''-'');
          s2 = (case s1 of [] \<Rightarrow> s1
                | c # r \<Rightarrow> if c = CHR ''+'' \<or> c = CHR ''-'' then r else s1);
          hex = (take 2 s2 = ''0x'' \<or> take 2 s2 = ''0X'');
          radix = (if hex then 16 else 10);
          s3 = (if hex then drop 2 s2 else s2);
          ds = takeWhile (\<lambda>c. digitValue c < radix) s3
      in if ds = [] then None
         else Some ((if neg then - 1 else 1) *
                    int (foldl (\<lambda>a c. a * radix + digitValue c) 0 ds)))"

text \<open>\<^verbatim>\<open>parseInt(item.type.split('_')[1])\<close>; a missing second piece is
  \<^verbatim>\<open>undefined\<close>, which parses to \<^verbatim>\<open>NaN\<close>.\<close>

definition level_of_type :: "string \<Rightarrow> int option" where
  "level_of_type t =
     (case js_split CHR ''_'' t of
        _ # x # _ \<Rightarrow> parseInt x
      | _ \<Rightarrow> None)"

section \<open>Heading extractor\<close>

text \<open>
  The \<^verbatim>\<open>headings\<close> memo of \<^verbatim>\<open>ArticleView\<close>: \<^verbatim>\<open>scan\<close> walks the items with
  \<^verbatim>\<open>forEach\<close> and pushes onto the array \<^verbatim>\<open>extracted\<close>, which is passed here as state.
  \<^verbatim>\<open>item[item.type].rich_text.map\<close> raises when the payload or its rich text is
  absent, and the exception leaves the whole scan.
\<close>

fun scan :: "block list \<Rightarrow> heading list \<Rightarrow> error + heading list"
and scan_item :: "block \<Rightarrow> heading list \<Rightarrow> error + heading list" where
  "scan [] extracted = Inr extracted"
| "scan (item # items) extracted =
     (case scan_item item extracted of
        Inl e \<Rightarrow> Inl e
      | Inr extracted' \<Rightarrow> scan items extracted')"
| "scan_item (Block i t p cs) extracted =
     (case (if startsWith t ''heading_'' then
              (case p of
                 None \<Rightarrow> Inl TypeError
               | Some d \<Rightarrow>
                   (case rich_text d of
                      None \<Rightarrow> Inl TypeError
                    | Some rt \<Rightarrow>
                        (let txt = join (map plain_text rt) in
                         Inr (if txt \<noteq> []
                              then extracted @ [\<lparr>hid = i, htext = txt, level = level_of_type t\<rparr>]
                              else extracted))))
            else Inr extracted) of
        Inl e \<Rightarrow> Inl e
      | Inr extracted' \<Rightarrow>
          (case cs of None \<Rightarrow> Inr extracted' | Some l \<Rightarrow> scan l extracted'))"

definition headings :: "block list \<Rightarrow> error + heading list" where
  "headings blocks = scan blocks []"

text \<open>
  The order the specification asks for, written from its words: the document
  order of a tree is depth-first pre-order, a node before its children and the
  children in their given order. A heading block is one whose kind starts with
  \<^verbatim>\<open>heading_\<close>; its entry carries the block identifier, the concatenated plain
  text of its spans and the level read off the kind.
\<close>

fun document_order :: "block list \<Rightarrow> block list"
and document_order_item :: "block \<Rightarrow> block list" where
  "document_order [] = []"
| "document_order (b # bs) = document_order_item b @ document_order bs"
| "document_order_item (Block i t p cs) =
     Block i t p cs # (case cs of None \<Rightarrow> [] | Some l \<Rightarrow> document_order l)"

definition is_heading :: "block \<Rightarrow> bool" where
  "is_heading b = startsWith (type b) ''heading_''"

definition heading_spans :: "block \<Rightarrow> span list option" where
  "heading_spans b = (case payload b of None \<Rightarrow> None | Some d \<Rightarrow> rich_text d)"

definition heading_text :: "block \<Rightarrow> string" where
  "heading_text b = (case heading_spans b of None \<Rightarrow> [] | Some rt \<Rightarrow> concat (map plain_text rt))"

definition entry_of :: "block \<Rightarrow> heading" where
  "entry_of b = \<lparr>hid = block_id b, htext = heading_text b, level = level_of_type (type b)\<rparr>"

definition listed :: "block \<Rightarrow> bool" where
  "listed b = (is_heading b \<and> heading_text b \<noteq> [])"

definition entries_in_document_order :: "block list \<Rightarrow> heading list" where
  "entries_in_document_order blocks = map entry_of (filter listed (document_order blocks))"

text \<open>Every heading block of the tree carries a payload with rich text.\<close>

definition headings_readable :: "block list \<Rightarrow> bool" where
  "headings_readable blocks =
     list_all (\<lambda>b. is_heading b \<longrightarrow> heading_spans b \<noteq> None) (document_order blocks)"

section \<open>Rich-text formatter\<close>

text \<open>
  The inline elements \<^verbatim>\<open>renderRichText\<close> returns. The first argument is the React
  key, the index of the span. Class names are fixed strings and are left out. An
  anchor carries \<^verbatim>\<open>href\<close>, \<^verbatim>\<open>target\<close>, \<^verbatim>\<open>rel\<close>, its style and the element it wraps.
\<close>

record style =
  fontWeight :: string
  fontStyle :: string
  textDecoration :: string
  style_color :: string

datatype inline =
    SpanEl nat style string
  | CodeEl nat string
  | AnchorEl nat string string string style inline

definition span_style :: "annotations \<Rightarrow> style" where
  "span_style a =
     \<lparr>fontWeight = (if bold a then ''700'' else ''inherit''),
      fontStyle = (if italic a then ''italic'' else ''inherit''),
      textDecoration = (if underline a then ''underline''
                        else if strikethrough a then ''line-through'' else ''none''),
      style_color = (if color a \<noteq> ''default'' then color a else ''inherit'')\<rparr>"

text \<open>
  The callback of \<^verbatim>\<open>richText.map((text, i) => ...)\<close>. After the style is built
  it reads \<^verbatim>\<open>textContent.content\<close>, which raises for a span without \<^verbatim>\<open>text\<close>
  object.
\<close>

definition render_span :: "span \<Rightarrow> nat \<Rightarrow> error + inline" where
  "render_span tx i =
     (let st = span_style (annotations tx) in
      case text_content tx of
        None \<Rightarrow> Inl TypeError
      | Some content \<Rightarrow>
          (let element = SpanEl i st content;
               element = (if code (annotations tx) then CodeEl i content else element)
           in case href tx of
                None \<Rightarrow> Inr element
              | Some h \<Rightarrow>
                  if h \<noteq> [] then Inr (AnchorEl i h ''_blank'' ''noopener noreferrer'' st element)
                  else Inr element))"

text \<open>The \<^verbatim>\<open>map\<close> over the spans from index \<open>i\<close> on; an exception of the callback
  leaves the map.\<close>

fun map_spans :: "span list \<Rightarrow> nat \<Rightarrow> error + inline list" where
  "map_spans [] i = Inr []"
| "map_spans (tx # ts) i =
     (case render_span tx i of
        Inl e \<Rightarrow> Inl e
      | Inr f \<Rightarrow> (case map_spans ts (Suc i) of Inl e \<Rightarrow> Inl e | Inr fs \<Rightarrow> Inr (f # fs)))"

definition renderRichText :: "span list option \<Rightarrow> error + inline list option" where
  "renderRichText richText =
     (case richText of
        None \<Rightarrow> Inr None
      | Some ts \<Rightarrow> (case map_spans ts 0 of Inl e \<Rightarrow> Inl e | Inr fs \<Rightarrow> Inr (Some fs)))"

text \<open>Whether a span is rendered inside a link, the test \<^verbatim>\<open>if (href)\<close>.\<close>

definition linked :: "span \<Rightarrow> bool" where
  "linked tx = (case href tx of None \<Rightarrow> False | Some h \<Rightarrow> h \<noteq> [])"



fun inline_styles :: "inline \<Rightarrow> style list" where
  "inline_styles (SpanEl k st c) = [st]"
| "inline_styles (CodeEl k c) = []"
| "inline_styles (AnchorEl k h tg rl st el) = st # inline_styles el"

section \<open>Block renderer\<close>

text \<open>
  The element tree \<^verbatim>\<open>NotionBlockRenderer\<close> returns, one constructor for each
  branch of its \<^verbatim>\<open>switch\<close>; \<open>None\<close> of type \<open>view option\<close> is \<^verbatim>\<open>null\<close>. Class names
  are left out except where they are computed from the payload. \<open>MermaidV\<close> is the
  element \<^verbatim>\<open><Mermaid chart={code} />\<close>, \<open>CodeBlockV\<close> the labelled \<^verbatim>\<open>pre\<close> block with
  the language label and the source text, \<open>NestedV\<close> the \<^verbatim>\<open>nested-blocks\<close> wrapper
  of \<^verbatim>\<open>renderChildren\<close>.
\<close>

datatype view =
    ParagraphV "inline list option" "view option"
  | HeadingV nat string "inline list option"
  | BulletedV "inline list option" "view option"
  | NumberedV "inline list option" "view option"
  | ToDoV bool "inline list option"
  | ToggleV "inline list option" "view option"
  | ColumnListV "view option list option"
  | ColumnV "view option list option"
  | MermaidV string
  | CodeBlockV "string option" string
  | ImageV string "inline list option"
  | FileV string string
  | QuoteV "inline list option" "view option"
  | DividerV
  | CalloutV string string "inline list option" "view option"
  | SyncedV "view option"
  | NestedV "view option list"

text \<open>\<^verbatim>\<open>getMediaUrl(data)\<close>; \<^verbatim>\<open>data.external.url\<close> raises when \<^verbatim>\<open>data.external\<close>
  is absent, and likewise for \<^verbatim>\<open>data.file\<close>. The result \<open>None\<close> is \<^verbatim>\<open>undefined\<close>,
  the value of an absent \<^verbatim>\<open>url\<close>.\<close>

definition getMediaUrl :: "payload option \<Rightarrow> error + string option" where
  "getMediaUrl data =
     (case data of
        None \<Rightarrow> Inr (Some [])
      | Some d \<Rightarrow>
          if media_type d = Some ''external'' then
            (case external_ref d of None \<Rightarrow> Inl TypeError | Some u \<Rightarrow> Inr u)
          else if media_type d = Some ''file'' then
            (case file_ref d of None \<Rightarrow> Inl TypeError | Some u \<Rightarrow> Inr u)
          else Inr (Some []))"

text \<open>The test \<^verbatim>\<open>if (!url)\<close> on its result: \<^verbatim>\<open>undefined\<close> and the empty string
  are falsy.\<close>

definition no_url :: "string option \<Rightarrow> bool" where
  "no_url u = (case u of None \<Rightarrow> True | Some v \<Rightarrow> v = [])"

definition url_text :: "string option \<Rightarrow> string" where
  "url_text u = (case u of None \<Rightarrow> [] | Some v \<Rightarrow> v)"

text \<open>Sequencing of two computations that may raise.\<close>

definition on_value :: "error + 'a \<Rightarrow> ('a \<Rightarrow> error + 'b) \<Rightarrow> error + 'b" where
  "on_value x f = (case x of Inl e \<Rightarrow> Inl e | Inr v \<Rightarrow> f v)"

text \<open>The plain text of a code block, \<^verbatim>\<open>data.rich_text.map(t => t.plain_text).join('')\<close>.\<close>

definition code_text :: "payload \<Rightarrow> error + string" where
  "code_text d =
     (case rich_text d of
        None \<Rightarrow> Inl TypeError
      | Some rt \<Rightarrow> Inr (join (map plain_text rt)))"

text \<open>The default icon of a callout, the light bulb, as its UTF-8 bytes.\<close>

definition default_callout_icon :: string where
  "default_callout_icon = [CHR 0xF0, CHR 0x9F, CHR 0x92, CHR 0xA1]"

definition callout_bgColor :: "payload \<Rightarrow> string" where
  "callout_bgColor d =
     (case callout_color d of
        None \<Rightarrow> ''blue''
      | Some c \<Rightarrow>
          (case js_split CHR ''_'' c of
             [] \<Rightarrow> ''blue''
           | x # _ \<Rightarrow> if x \<noteq> [] then x else ''blue''))"

definition callout_icon :: "payload \<Rightarrow> string" where
  "callout_icon d =
     (case icon_emoji d of
        None \<Rightarrow> default_callout_icon
      | Some e \<Rightarrow> if e \<noteq> [] then e else default_callout_icon)"

definition file_caption :: "payload \<Rightarrow> string" where
  "file_caption d =
     (case caption d of
        Some (c # _) \<Rightarrow> if plain_text c \<noteq> [] then plain_text c else ''Document''
      | _ \<Rightarrow> ''Document'')"

definition image_caption :: "payload \<Rightarrow> error + inline list option" where
  "image_caption d =
     (case caption d of
        None \<Rightarrow> Inr None
      | Some c \<Rightarrow> if length c > 0 then renderRichText (Some c) else Inr None)"

text \<open>
  The \<^verbatim>\<open>switch (type)\<close> of the renderer for a block with payload \<open>d\<close>. \<open>kids\<close> is
  what \<^verbatim>\<open>renderChildren()\<close> returns and \<open>cols\<close> what \<^verbatim>\<open>block.children?.map(...)\<close>
  returns; a branch that does not call them does not look at the argument.
\<close>

definition block_view ::
  "string \<Rightarrow> string \<Rightarrow> payload \<Rightarrow> error + view option \<Rightarrow> error + view option list option
     \<Rightarrow> error + view option"
where
  "block_view i t d kids cols =
     (if t = ''paragraph'' then
        on_value (renderRichText (rich_text d)) (\<lambda>rt.
        on_value kids (\<lambda>k. Inr (Some (ParagraphV rt k))))
      else if t = ''heading_1'' then
        on_value (renderRichText (rich_text d)) (\<lambda>rt. Inr (Some (HeadingV 1 i rt)))
      else if t = ''heading_2'' then
        on_value (renderRichText (rich_text d)) (\<lambda>rt. Inr (Some (HeadingV 2 i rt)))
      else if t = ''heading_3'' then
        on_value (renderRichText (rich_text d)) (\<lambda>rt. Inr (Some (HeadingV 3 i rt)))
      else if t = ''bulleted_list_item'' then
        on_value (renderRichText (rich_text d)) (\<lambda>rt.
        on_value kids (\<lambda>k. Inr (Some (BulletedV rt k))))
      else if t = ''numbered_list_item'' then
        on_value (renderRichText (rich_text d)) (\<lambda>rt.
        on_value kids (\<lambda>k. Inr (Some (NumberedV rt k))))
      else if t = ''to_do'' then
        on_value (renderRichText (rich_text d)) (\<lambda>rt. Inr (Some (ToDoV (checked d) rt)))
      else if t = ''toggle'' then
        on_value (renderRichText (rich_text d)) (\<lambda>rt.
        on_value kids (\<lambda>k. Inr (Some (ToggleV rt k))))
      else if t = ''column_list'' then on_value cols (\<lambda>c. Inr (Some (ColumnListV c)))
      else if t = ''column'' then on_value cols (\<lambda>c. Inr (Some (ColumnV c)))
      else if t = ''code'' then
        (if language d = Some ''mermaid'' then
           (case code_text d of Inl e \<Rightarrow> Inl e | Inr chart \<Rightarrow> Inr (Some (MermaidV chart)))
         else
           (case code_text d of
              Inl e \<Rightarrow> Inl e
            | Inr src \<Rightarrow> Inr (Some (CodeBlockV (language d) src))))
      else if t = ''image'' then
        on_value (getMediaUrl (Some d)) (\<lambda>imageUrl.
          if no_url imageUrl then Inr None
          else on_value (image_caption d) (\<lambda>cap.
                 Inr (Some (ImageV (url_text imageUrl) cap))))
      else if t = ''file'' \<or> t = ''video'' \<or> t = ''pdf'' then
        on_value (getMediaUrl (Some d)) (\<lambda>mediaUrl.
          if no_url mediaUrl then Inr None
          else Inr (Some (FileV (url_text mediaUrl) (file_caption d))))
      else if t = ''quote'' then
        on_value (renderRichText (rich_text d)) (\<lambda>rt.
        on_value kids (\<lambda>k. Inr (Some (QuoteV rt k))))
      else if t = ''divider'' then Inr (Some DividerV)
      else if t = ''callout'' then
        on_value (renderRichText (rich_text d)) (\<lambda>rt.
        on_value kids (\<lambda>k.
          Inr (Some (CalloutV (callout_bgColor d) (callout_icon d) rt k))))
      else if t = ''synced_block'' then on_value kids (\<lambda>k. Inr (Some (SyncedV k)))
      else Inr None)"

text \<open>
  The renderer and the \<^verbatim>\<open>map\<close> over a list of blocks. An exception raised while a
  block is rendered leaves the whole render, so the first error of a list is the
  result for the list.
\<close>

fun NotionBlockRenderer :: "block \<Rightarrow> error + view option"
and render_each :: "block list \<Rightarrow> error + view option list" where
  "render_each [] = Inr []"
| "render_each (b # bs) =
     (case NotionBlockRenderer b of
        Inl e \<Rightarrow> Inl e
      | Inr v \<Rightarrow> (case render_each bs of Inl e \<Rightarrow> Inl e | Inr vs \<Rightarrow> Inr (v # vs)))"
| "NotionBlockRenderer (Block i t p cs) =
     (case p of
        None \<Rightarrow> Inr None
      | Some d \<Rightarrow>
          block_view i t d
            (case cs of
               None \<Rightarrow> Inr None
             | Some l \<Rightarrow>
                 if length l = 0 then Inr None
                 else map_sum id (\<lambda>vs. Some (NestedV vs)) (render_each l))
            (case cs of
               None \<Rightarrow> Inr None
             | Some l \<Rightarrow> map_sum id Some (render_each l)))"

section \<open>Diagram renderer\<close>

text \<open>
  The state of one \<^verbatim>\<open>Mermaid\<close> component: the \<^verbatim>\<open>error\<close> state variable and the
  \<^verbatim>\<open>innerHTML\<close> of its container. The component returns the error notice when
  \<^verbatim>\<open>error\<close> is truthy and the container otherwise; \<^verbatim>\<open>ref.current\<close> is the
  container, so it is set exactly when the container is what was returned.
\<close>

record mermaid_state =
  diagram_error :: "string option"
  innerHTML :: string

datatype mermaid_view = ErrorNotice string | DiagramContainer string

definition Mermaid_initial :: mermaid_state where
  "Mermaid_initial = \<lparr>diagram_error = None, innerHTML = []\<rparr>"

definition error_shown :: "mermaid_state \<Rightarrow> bool" where
  "error_shown st = (case diagram_error st of None \<Rightarrow> False | Some e \<Rightarrow> e \<noteq> [])"

definition Mermaid_view :: "mermaid_state \<Rightarrow> mermaid_view" where
  "Mermaid_view st =
     (case diagram_error st of
        None \<Rightarrow> DiagramContainer (innerHTML st)
      | Some e \<Rightarrow> if e \<noteq> [] then ErrorNotice e else DiagramContainer (innerHTML st))"

definition ref_current :: "mermaid_state \<Rightarrow> bool" where
  "ref_current st = (\<not> error_shown st)"

text \<open>
  The effect \<^verbatim>\<open>renderChart\<close>. \<open>mermaid_render\<close> stands for the library calls inside
  the \<^verbatim>\<open>try\<close>, \<^verbatim>\<open>mermaid.initialize\<close> followed by \<^verbatim>\<open>await mermaid.render(id, chart)\<close>:
  \<open>Inr svg\<close> when they succeed, \<open>Inl\<close> when one of them throws or rejects. The
  \<^verbatim>\<open>catch\<close> turns the failure into a state update, so the effect returns a state in
  every case.
\<close>

definition renderChart :: "(string \<Rightarrow> error + string) \<Rightarrow> string \<Rightarrow> mermaid_state \<Rightarrow> mermaid_state" where
  "renderChart mermaid_render chart st =
     (if ref_current st then
        (case mermaid_render chart of
           Inr svg \<Rightarrow> st\<lparr>innerHTML := svg, diagram_error := None\<rparr>
         | Inl err \<Rightarrow> st\<lparr>diagram_error := Some ''Diagram preview unavailable''\<rparr>)
      else st)"

text \<open>The effect runs on mount and again whenever the \<^verbatim>\<open>chart\<close> property changes:
  the state after the component has seen the given charts, in order, each compile
  finishing before the next effect runs. A block keeps its description, so its
  component sees one chart.\<close>

definition Mermaid_run :: "(string \<Rightarrow> error + string) \<Rightarrow> string list \<Rightarrow> mermaid_state" where
  "Mermaid_run mermaid_render charts =
     foldl (\<lambda>st chart. renderChart mermaid_render chart st) Mermaid_initial charts"

section \<open>Component state, scroll-spy and navigation\<close>

text \<open>
  The page metadata \<^verbatim>\<open>NotionPage\<close>, of which the identifier and the address are
  kept, and the state variables of \<^verbatim>\<open>ArticleView\<close>: \<^verbatim>\<open>blocks\<close>, \<^verbatim>\<open>pageDetails\<close>
  (\<open>None\<close> is \<^verbatim>\<open>null\<close>), \<^verbatim>\<open>loading\<close> and \<^verbatim>\<open>activeSection\<close>, with their initial
  values.
\<close>

record notion_page =
  page_id :: string
  page_url :: string

record article_state =
  blocks :: "block list"
  pageDetails :: "notion_page option"
  loading :: bool
  activeSection :: string

definition initial_state :: article_state where
  "initial_state = \<lparr>blocks = [], pageDetails = None, loading = True, activeSection = []\<rparr>"

text \<open>
  The callback of the \<^verbatim>\<open>IntersectionObserver\<close>: an entry is the pair of
  \<^verbatim>\<open>isIntersecting\<close> and \<^verbatim>\<open>target.id\<close>, and \<^verbatim>\<open>forEach\<close> sets the active section
  for each intersecting entry in turn.
\<close>

definition observer_callback :: "(bool \<times> string) list \<Rightarrow> article_state \<Rightarrow> article_state" where
  "observer_callback entries s =
     foldl (\<lambda>s (isIntersecting, target_id).
              if isIntersecting then s\<lparr>activeSection := target_id\<rparr> else s) s entries"

text \<open>\<^verbatim>\<open>scrollToHeading(id)\<close>; \<open>document_ids\<close> are the identifiers for which
  \<^verbatim>\<open>document.getElementById\<close> finds an element. The scrolling of the window is
  not part of the state.\<close>

definition scrollToHeading :: "string list \<Rightarrow> string \<Rightarrow> article_state \<Rightarrow> article_state" where
  "scrollToHeading document_ids i s =
     (if i \<in> set document_ids then s\<lparr>activeSection := i\<rparr> else s)"

datatype nav_event = Observed "(bool \<times> string) list" | Clicked string

fun nav_step :: "string list \<Rightarrow> article_state \<Rightarrow> nav_event \<Rightarrow> article_state" where
  "nav_step document_ids s (Observed entries) = observer_callback entries s"
| "nav_step document_ids s (Clicked i) = scrollToHeading document_ids i s"

definition nav_run :: "string list \<Rightarrow> nav_event list \<Rightarrow> article_state \<Rightarrow> article_state" where
  "nav_run document_ids evs s = foldl (nav_step document_ids) s evs"

text \<open>The test \<^verbatim>\<open>activeSection === heading.id\<close> of the sidebar.\<close>

definition is_active :: "article_state \<Rightarrow> heading \<Rightarrow> bool" where
  "is_active s h = (activeSection s = hid h)"

section \<open>Page orchestrator\<close>

text \<open>The content area: the skeleton while \<^verbatim>\<open>loading\<close>, else the rendered blocks
  or the notice that there is no entry data.\<close>

datatype content = Skeleton | ContentRoot "view option list" | EntryDataUnavailable

definition content_body :: "article_state \<Rightarrow> error + content" where
  "content_body s =
     (if loading s then Inr Skeleton
      else if length (blocks s) > 0 then map_sum id ContentRoot (render_each (blocks s))
      else Inr EntryDataUnavailable)"

text \<open>
  The outline of the sidebar: a button for each extracted heading, marked when
  it is the active section, or the notice that there is no outline. It is built
  from \<^verbatim>\<open>blocks\<close> whether or not \<^verbatim>\<open>loading\<close> is set.
\<close>

datatype outline = OutlineEntries "(heading \<times> bool) list" | OutlineUnavailable

definition sidebar :: "article_state \<Rightarrow> error + outline" where
  "sidebar s =
     (case headings (blocks s) of
        Inl e \<Rightarrow> Inl e
      | Inr hs \<Rightarrow>
          Inr (if length hs > 0
               then OutlineEntries (map (\<lambda>h. (h, activeSection s = hid h)) hs)
               else OutlineUnavailable))"

text \<open>
  \<^verbatim>\<open>loadPageData\<close> is asynchronous. A call of it is the pair of its two requests,
  each pending, fulfilled or rejected; the orchestrator is the component state
  together with the calls made so far. \<^verbatim>\<open>Promise.all\<close> has settled when one
  request is rejected or both are fulfilled, and the code after the \<^verbatim>\<open>await\<close>
  runs at the event that settles it.
\<close>

datatype 'a settled = Pending | Fulfilled 'a | Rejected error

record load_call =
  blocks_request :: "block list settled"
  details_request :: "notion_page option settled"

record orchestrator =
  component :: article_state
  calls :: "load_call list"

datatype load_event =
    ArticleChanged
  | BlocksSettled nat "error + block list"
  | DetailsSettled nat "error + notion_page option"

definition settle :: "error + 'a \<Rightarrow> 'a settled" where
  "settle r = (case r of Inl e \<Rightarrow> Rejected e | Inr v \<Rightarrow> Fulfilled v)"

definition all_settled :: "load_call \<Rightarrow> bool" where
  "all_settled c =
     (case blocks_request c of
        Rejected e \<Rightarrow> True
      | Pending \<Rightarrow> (case details_request c of Rejected e \<Rightarrow> True | _ \<Rightarrow> False)
      | Fulfilled b \<Rightarrow> (case details_request c of Pending \<Rightarrow> False | _ \<Rightarrow> True))"

text \<open>
  The code after \<^verbatim>\<open>await Promise.all\<close>: the successive component states, one for
  each state setter. With both results it stores the blocks, stores the details
  and then clears \<^verbatim>\<open>loading\<close>; after a rejection the \<^verbatim>\<open>catch\<close> logs and only
  \<^verbatim>\<open>loading\<close> is cleared.
\<close>

definition resume :: "load_call \<Rightarrow> article_state \<Rightarrow> article_state list" where
  "resume c s =
     (case blocks_request c of
        Fulfilled blocksData \<Rightarrow>
          (case details_request c of
             Fulfilled detailsData \<Rightarrow>
               [s\<lparr>blocks := blocksData\<rparr>,
                s\<lparr>blocks := blocksData, pageDetails := detailsData\<rparr>,
                s\<lparr>blocks := blocksData, pageDetails := detailsData, loading := False\<rparr>]
           | _ \<Rightarrow> [s\<lparr>loading := False\<rparr>])
      | _ \<Rightarrow> [s\<lparr>loading := False\<rparr>])"

text \<open>A request of call \<open>k\<close> settles: the call is updated, and when that settles
  \<^verbatim>\<open>Promise.all\<close> the code after the \<^verbatim>\<open>await\<close> runs.\<close>

definition settled_call :: "orchestrator \<Rightarrow> nat \<Rightarrow> load_call \<Rightarrow> article_state list \<times> orchestrator" where
  "settled_call st k c' =
     (let c = calls st ! k;
          commits = (if \<not> all_settled c \<and> all_settled c' then resume c' (component st) else [])
      in (commits, st\<lparr>component := last (component st # commits),
                      calls := (calls st)[k := c']\<rparr>))"

text \<open>
  One event of the orchestrator, with the component states it commits in order.
  A change of \<^verbatim>\<open>article.id\<close> runs the effect: \<^verbatim>\<open>setLoading(true)\<close>, then both
  requests are started before either is awaited.
\<close>

fun step :: "orchestrator \<Rightarrow> load_event \<Rightarrow> article_state list \<times> orchestrator" where
  "step st ArticleChanged =
     (let s = (component st)\<lparr>loading := True\<rparr> in
      ([s], st\<lparr>component := s,
               calls := calls st @ [\<lparr>blocks_request = Pending, details_request = Pending\<rparr>]\<rparr>))"
| "step st (BlocksSettled k r) =
     (if k < length (calls st) \<and> blocks_request (calls st ! k) = Pending
      then settled_call st k ((calls st ! k)\<lparr>blocks_request := settle r\<rparr>)
      else ([], st))"
| "step st (DetailsSettled k r) =
     (if k < length (calls st) \<and> details_request (calls st ! k) = Pending
      then settled_call st k ((calls st ! k)\<lparr>details_request := settle r\<rparr>)
      else ([], st))"

fun trace :: "orchestrator \<Rightarrow> load_event list \<Rightarrow> article_state list" where
  "trace st [] = []"
| "trace st (e # es) = fst (step st e) @ trace (snd (step st e)) es"

text \<open>The orchestrator after a list of events.\<close>

fun run :: "orchestrator \<Rightarrow> load_event list \<Rightarrow> orchestrator" where
  "run st [] = st"
| "run st (e # es) = run (snd (step st e)) es"

text \<open>
  The component state the specification asks for once a load has been started
  from the state \<open>s0\<close>, written from its words: \<^verbatim>\<open>loading\<close> is set until both
  requests of the call have settled, and from then on both results are stored
  and \<^verbatim>\<open>loading\<close> is cleared.
\<close>

definition expected :: "article_state \<Rightarrow> load_call \<Rightarrow> article_state" where
  "expected s0 c =
     (case blocks_request c of
        Fulfilled b \<Rightarrow>
          (case details_request c of
             Fulfilled d \<Rightarrow> s0\<lparr>blocks := b, pageDetails := d, loading := False\<rparr>
           | _ \<Rightarrow> s0\<lparr>loading := True\<rparr>)
      | _ \<Rightarrow> s0\<lparr>loading := True\<rparr>)"

text \<open>No load is in flight when \<^verbatim>\<open>Promise.all\<close> of every call has settled.\<close>

definition quiet :: "orchestrator \<Rightarrow> bool" where
  "quiet st = list_all all_settled (calls st)"

text \<open>The events that may follow the start of call \<open>k\<close> when no further change
  is made and no request of call \<open>k\<close> is rejected.\<close>

fun follows :: "nat \<Rightarrow> load_event \<Rightarrow> bool" where
  "follows k ArticleChanged = False"
| "follows k (BlocksSettled j r) = (case r of Inl e \<Rightarrow> j \<noteq> k | Inr v \<Rightarrow> True)"
| "follows k (DetailsSettled j r) = (case r of Inl e \<Rightarrow> j \<noteq> k | Inr v \<Rightarrow> True)"

definition no_rejection :: "load_call \<Rightarrow> bool" where
  "no_rejection c =
     (case blocks_request c of
        Rejected e \<Rightarrow> False
      | _ \<Rightarrow> (case details_request c of Rejected e \<Rightarrow> False | _ \<Rightarrow> True))"

text \<open>The invariant of a load of call \<open>k\<close> started from the state \<open>s0\<close>.\<close>

definition gate_invariant :: "article_state \<Rightarrow> nat \<Rightarrow> orchestrator \<Rightarrow> bool" where
  "gate_invariant s0 k st =
     (length (calls st) = Suc k
      \<and> list_all all_settled (take k (calls st))
      \<and> no_rejection (calls st ! k)
      \<and> component st = expected s0 (calls st ! k))"

section \<open>Content client\<close>

text \<open>
  \<^verbatim>\<open>getPageBlocks\<close> of \<^verbatim>\<open>services/notionService.ts\<close>. The environment variable is
  the optional API key; \<open>fetch\<close> maps the request to the response or to the
  exception it throws; \<open>json\<close> of a response is the \<^verbatim>\<open>results\<close> of the parsed body
  or the exception of the parser.
\<close>

record request =
  url :: string
  http_method :: string
  headers :: "(string \<times> string) list"

record 'a response =
  ok :: bool
  json :: "error + 'a"

definition NOTION_VERSION :: string where
  "NOTION_VERSION = ''2022-06-28''"

text \<open>\<^verbatim>\<open>s.includes(p)\<close>: \<open>p\<close> occurs in \<open>s\<close>.\<close>

fun str_includes :: "string \<Rightarrow> string \<Rightarrow> bool" where
  "str_includes [] p = startsWith [] p"
| "str_includes (c # cs) p = (startsWith (c # cs) p \<or> str_includes cs p)"

definition blocks_request_for :: "string \<Rightarrow> string \<Rightarrow> request" where
  "blocks_request_for apiKey blockId =
     \<lparr>url = ''/api/notion/blocks/'' @ blockId @ ''/children?page_size=100'',
      http_method = ''GET'',
      headers = [(''Authorization'', ''Bearer '' @ apiKey),
                 (''Notion-Version'', NOTION_VERSION)]\<rparr>"

text \<open>The body of the \<^verbatim>\<open>try\<close>: \<open>Inl\<close> is an exception thrown inside it.\<close>

definition getPageBlocks_try ::
  "(request \<Rightarrow> error + block list response) \<Rightarrow> string \<Rightarrow> string \<Rightarrow> error + block list" where
  "getPageBlocks_try fetch apiKey blockId =
     (case fetch (blocks_request_for apiKey blockId) of
        Inl e \<Rightarrow> Inl e
      | Inr resp \<Rightarrow>
          if \<not> ok resp then Inr []
          else (case json resp of Inl e \<Rightarrow> Inl e | Inr results \<Rightarrow> Inr results))"

definition getPageBlocks ::
  "string option \<Rightarrow> (request \<Rightarrow> error + block list response) \<Rightarrow> string \<Rightarrow> error + block list" where
  "getPageBlocks env_key fetch blockId =
     (case env_key of
        None \<Rightarrow> Inr []
      | Some apiKey \<Rightarrow>
          if apiKey = [] \<or> str_includes apiKey ''PLACEHOLDER'' then Inr []
          else (case getPageBlocks_try fetch apiKey blockId of
                  Inl e \<Rightarrow> Inr []
                | Inr bs \<Rightarrow> Inr bs))"

text \<open>
  Modelled from the spec: \<^verbatim>\<open>getPageDetails\<close> is imported by the component from the
  content client, and the client source at hand does not define it. The
  specification gives the page-metadata fetch as returning an empty or default
  result rather than raising on failure, with its own authentication against
  the relay. \<open>exchange\<close> is the outcome of its HTTP exchange; the default result
  is \<^verbatim>\<open>null\<close>.
\<close>

definition getPageDetails ::
  "string option \<Rightarrow> (error + notion_page response) \<Rightarrow> error + notion_page option" where
  "getPageDetails env_key exchange =
     (case env_key of
        None \<Rightarrow> Inr None
      | Some apiKey \<Rightarrow>
          if apiKey = [] \<or> str_includes apiKey ''PLACEHOLDER'' then Inr None
          else (case exchange of
                  Inl e \<Rightarrow> Inr None
                | Inr resp \<Rightarrow>
                    if \<not> ok resp then Inr None
                    else (case json resp of Inl e \<Rightarrow> Inr None | Inr pg \<Rightarrow> Inr (Some pg))))"

section \<open>Sample data\<close>

text \<open>Concrete spans, payloads and blocks on which the theorems are run.\<close>

definition plain_annotations :: annotations where
  "plain_annotations =
     \<lparr>bold = False, italic = False, underline = False, strikethrough = False,
      code = False, color = ''default''\<rparr>"

definition plain_span :: "string \<Rightarrow> span" where
  "plain_span s =
     \<lparr>annotations = plain_annotations, text_content = Some s, href = None, plain_text = s\<rparr>"

definition empty_payload :: payload where
  "empty_payload =
     \<lparr>rich_text = None, language = None, checked = False, media_type = None,
      external_ref = None, file_ref = None, caption = None, callout_color = None,
      icon_emoji = None\<rparr>"

definition text_payload :: "span list \<Rightarrow> payload" where
  "text_payload rt = empty_payload\<lparr>rich_text := Some rt\<rparr>"

definition text_block :: "string \<Rightarrow> string \<Rightarrow> string \<Rightarrow> block list option \<Rightarrow> block" where
  "text_block i t s cs = Block i t (Some (text_payload [plain_span s])) cs"

text \<open>A heading two levels deep: inside a toggle inside a column.\<close>

definition nested_tree :: "block list" where
  "nested_tree =
     [text_block ''h1'' ''heading_1'' ''Intro'' None,
      text_block ''p1'' ''paragraph'' ''hello'' None,
      Block ''c1'' ''column'' (Some empty_payload)
        (Some [text_block ''t1'' ''toggle'' ''more''
                 (Some [text_block ''h3'' ''heading_3'' ''Deep'' None])]),
      text_block ''h2'' ''heading_2'' ''Details'' None]"

text \<open>A heading without text that has a heading with text below it.\<close>

definition silent_heading :: block where
  "silent_heading =
     Block ''h0'' ''heading_1'' (Some (text_payload []))
       (Some [text_block ''h9'' ''heading_2'' ''Inner'' None])"


definition struck_underlined :: span where
  "struck_underlined =
     \<lparr>annotations = plain_annotations\<lparr>underline := True, strikethrough := True\<rparr>,
      text_content = Some ''old'', href = None, plain_text = ''old''\<rparr>"



definition struck_code :: span where
  "struck_code =
     \<lparr>annotations = plain_annotations\<lparr>underline := True, strikethrough := True, code := True\<rparr>,
      text_content = Some ''old'', href = None, plain_text = ''old''\<rparr>"

text \<open>Two pages, and an orchestrator that has loaded nothing yet.\<close>

definition page_one :: notion_page where
  "page_one = \<lparr>page_id = ''page1'', page_url = ''https://example.org/1''\<rparr>"

definition page_two :: notion_page where
  "page_two = \<lparr>page_id = ''page2'', page_url = ''https://example.org/2''\<rparr>"

definition fresh :: orchestrator where
  "fresh = \<lparr>component = initial_state, calls = []\<rparr>"

text \<open>The payloads of a diagram block and of a source-code block.\<close>

definition mermaid_payload :: payload where
  "mermaid_payload =
     empty_payload\<lparr>rich_text := Some [plain_span ''graph TD;'', plain_span ''A-->B''],
                   language := Some ''mermaid''\<rparr>"

definition typescript_payload :: payload where
  "typescript_payload =
     empty_payload\<lparr>rich_text := Some [plain_span ''let x''], language := Some ''typescript''\<rparr>"

text \<open>A diagram compiler that fails on every description.\<close>

definition failing_render :: "string \<Rightarrow> error + string" where
  "failing_render chart = Inl RenderError"

section \<open>Properties of the heading extractor\<close>

lemma level_of_heading_kinds:
  "level_of_type ''heading_1'' = Some 1"
  "level_of_type ''heading_2'' = Some 2"
  "level_of_type ''heading_3'' = Some 3"
  by (simp_all add: level_of_type_def parseInt_def digitValue_def isWhiteSpace_def)

lemma scan_item_unfold:
  "scan_item (Block i t p cs) acc =
     (if is_heading (Block i t p cs) \<and> heading_spans (Block i t p cs) = None then Inl TypeError
      else (let acc' = (if listed (Block i t p cs) then acc @ [entry_of (Block i t p cs)] else acc)
            in case cs of None \<Rightarrow> Inr acc' | Some l \<Rightarrow> scan l acc'))"
  by (simp add: is_heading_def heading_spans_def listed_def heading_text_def entry_of_def join_def
      split: option.split)

text \<open>The scan with any starting array: it appends the listed entries of the
  document order, or raises when a heading block cannot be read.\<close>

lemma scan_document_order:
  "scan bs acc =
     (if list_all (\<lambda>b. is_heading b \<longrightarrow> heading_spans b \<noteq> None) (document_order bs)
      then Inr (acc @ map entry_of (filter listed (document_order bs))) else Inl TypeError)"
  "scan_item b acc =
     (if list_all (\<lambda>b. is_heading b \<longrightarrow> heading_spans b \<noteq> None) (document_order_item b)
      then Inr (acc @ map entry_of (filter listed (document_order_item b))) else Inl TypeError)"
proof (induction bs and b arbitrary: acc and acc rule: document_order_document_order_item.induct)
  case 1
  show ?case by simp
next
  case (2 b bs)
  show ?case by (simp add: "2.IH")
next
  case (3 i t p cs)
  show ?case
  proof (cases cs)
    case None
    then show ?thesis unfolding scan_item_unfold by simp
  next
    case (Some l)
    show ?thesis
      unfolding scan_item_unfold by (simp add: Some "3.IH"[OF Some])
  qed
qed

lemma headings_characterised:
  "headings tree =
     (if headings_readable tree then Inr (entries_in_document_order tree) else Inl TypeError)"
  by (simp add: headings_def headings_readable_def entries_in_document_order_def
      scan_document_order(1))

lemma scan_append:
  "scan (xs @ ys) acc = (case scan xs acc of Inl e \<Rightarrow> Inl e | Inr a \<Rightarrow> scan ys a)"
  by (induction xs arbitrary: acc) (simp_all split: sum.split)

lemma nested_tree_order:
  "document_order nested_tree =
     [text_block ''h1'' ''heading_1'' ''Intro'' None,
      text_block ''p1'' ''paragraph'' ''hello'' None,
      Block ''c1'' ''column'' (Some empty_payload)
        (Some [text_block ''t1'' ''toggle'' ''more''
                 (Some [text_block ''h3'' ''heading_3'' ''Deep'' None])]),
      text_block ''t1'' ''toggle'' ''more''
        (Some [text_block ''h3'' ''heading_3'' ''Deep'' None]),
      text_block ''h3'' ''heading_3'' ''Deep'' None,
      text_block ''h2'' ''heading_2'' ''Details'' None]"
  by (simp add: nested_tree_def text_block_def)

lemma text_block_facts:
  "is_heading (text_block i t s cs) = startsWith t ''heading_''"
  "heading_spans (text_block i t s cs) = Some [plain_span s]"
  "heading_text (text_block i t s cs) = s"
  "entry_of (text_block i t s cs) = \<lparr>hid = i, htext = s, level = level_of_type t\<rparr>"
  by (simp_all add: text_block_def is_heading_def heading_spans_def heading_text_def
      entry_of_def text_payload_def plain_span_def)

lemma nested_tree_readable: "headings_readable nested_tree"
  by (simp add: headings_readable_def nested_tree_order text_block_facts)
    (simp add: is_heading_def startsWith_def)

lemma nested_tree_entries:
  "entries_in_document_order nested_tree =
     [\<lparr>hid = ''h1'', htext = ''Intro'', level = Some 1\<rparr>,
      \<lparr>hid = ''h3'', htext = ''Deep'', level = Some 3\<rparr>,
      \<lparr>hid = ''h2'', htext = ''Details'', level = Some 2\<rparr>]"
  by (simp add: entries_in_document_order_def nested_tree_order listed_def text_block_facts
      level_of_heading_kinds)
    (simp add: is_heading_def startsWith_def)

text \<open>
  Claim C1, as amended. For every block tree whose heading blocks (kind starting
  with \<^verbatim>\<open>heading_\<close>) all carry a payload with rich text, the extractor returns
  exactly one entry for each heading block whose concatenated plain text is not
  empty, and no other entry. The entry has the block identifier as anchor, the
  concatenated plain text of the spans as display text and the level read off the
  kind, which is 1, 2 and 3 for the three heading kinds. The entries stand in
  depth-first pre-order of the tree, a node before its children and the children
  in their given order, at any depth of nesting.
\<close>

theorem headings_in_document_order:
  "(headings_readable tree \<longrightarrow> headings tree = Inr (entries_in_document_order tree))
   \<and> level_of_type ''heading_1'' = Some 1
   \<and> level_of_type ''heading_2'' = Some 2
   \<and> level_of_type ''heading_3'' = Some 3"
  by (simp add: headings_characterised level_of_heading_kinds)

theorem headings_in_document_order_witness:
  "headings_readable nested_tree
   \<and> headings nested_tree =
       Inr [\<lparr>hid = ''h1'', htext = ''Intro'', level = Some 1\<rparr>,
            \<lparr>hid = ''h3'', htext = ''Deep'', level = Some 3\<rparr>,
            \<lparr>hid = ''h2'', htext = ''Details'', level = Some 2\<rparr>]"
  using headings_in_document_order [of nested_tree]
  by (simp add: nested_tree_readable nested_tree_entries)

text \<open>
  The claim as it was stated fails: a heading block whose spans concatenate to the
  empty string is a heading block of the tree, so one entry for every heading
  block would list it, and the extractor returns no entry. A heading block without
  payload makes the extractor raise instead of returning entries.
\<close>

theorem headings_every_heading_counterexample:
  "map entry_of (filter is_heading
     (document_order [Block ''h0'' ''heading_1'' (Some (text_payload [])) None]))
     = [\<lparr>hid = ''h0'', htext = [], level = Some 1\<rparr>]
   \<and> headings [Block ''h0'' ''heading_1'' (Some (text_payload [])) None] = Inr []
   \<and> is_heading (Block ''h0'' ''heading_1'' None None)
   \<and> headings [Block ''h0'' ''heading_1'' None None] = Inl TypeError"
  by (simp add: headings_def is_heading_def startsWith_def text_payload_def join_def
      entry_of_def heading_text_def heading_spans_def level_of_heading_kinds)

text \<open>
  Claim C9. Every entry the extractor returns has a display text that is not
  empty. A heading block whose concatenated plain text is empty contributes no
  entry of its own, and its children are scanned all the same: the result is the
  one for the children followed by the rest of the items.
\<close>

theorem headings_text_nonempty:
  "(headings tree = Inr hs \<longrightarrow> (\<forall>h \<in> set hs. htext h \<noteq> []))
   \<and> (startsWith t ''heading_'' \<and> rich_text d = Some rt \<and> join (map plain_text rt) = [] \<longrightarrow>
        headings (Block i t (Some d) cs # rest) =
        headings ((case cs of None \<Rightarrow> [] | Some l \<Rightarrow> l) @ rest))"
proof (intro conjI impI)
  assume "headings tree = Inr hs"
  then have "hs = entries_in_document_order tree"
    by (simp add: headings_characterised split: if_splits)
  then show "\<forall>h \<in> set hs. htext h \<noteq> []"
    by (auto simp: entries_in_document_order_def listed_def entry_of_def)
next
  assume a: "startsWith t ''heading_'' \<and> rich_text d = Some rt \<and> join (map plain_text rt) = []"
  have "scan_item (Block i t (Some d) cs) [] =
          (case cs of None \<Rightarrow> Inr [] | Some l \<Rightarrow> scan l [])"
    using a by simp
  then show "headings (Block i t (Some d) cs # rest) =
               headings ((case cs of None \<Rightarrow> [] | Some l \<Rightarrow> l) @ rest)"
    by (simp add: headings_def scan_append split: option.split)
qed

theorem headings_text_nonempty_witness:
  "headings [silent_heading] = Inr [\<lparr>hid = ''h9'', htext = ''Inner'', level = Some 2\<rparr>]
   \<and> htext \<lparr>hid = ''h9'', htext = ''Inner'', level = Some 2\<rparr> \<noteq> []
   \<and> startsWith ''heading_1'' ''heading_''
   \<and> rich_text (text_payload []) = Some []
   \<and> join (map plain_text []) = []
   \<and> headings [silent_heading] = headings [text_block ''h9'' ''heading_2'' ''Inner'' None]"
proof -
  have h: "headings [silent_heading] = Inr [\<lparr>hid = ''h9'', htext = ''Inner'', level = Some 2\<rparr>]"
    by (simp add: headings_def silent_heading_def text_block_def text_payload_def plain_span_def
        join_def startsWith_def level_of_heading_kinds)
  have p: "startsWith ''heading_1'' ''heading_'' \<and> rich_text (text_payload []) = Some []
           \<and> join (map plain_text []) = []"
    by (simp add: startsWith_def text_payload_def join_def)
  from headings_text_nonempty
         [of "[silent_heading]" "[\<lparr>hid = ''h9'', htext = ''Inner'', level = Some 2\<rparr>]"
             "''heading_1''" "text_payload []" "[]" "''h0''"
             "Some [text_block ''h9'' ''heading_2'' ''Inner'' None]" "[]"]
  show ?thesis using h p by (simp add: silent_heading_def)
qed

section \<open>Properties of the rich-text formatter\<close>

lemma render_span_result:
  "text_content tx = Some c \<Longrightarrow>
     render_span tx i =
       Inr (if code (annotations tx)
            then (if linked tx
                  then AnchorEl i (the (href tx)) ''_blank'' ''noopener noreferrer''
                         (span_style (annotations tx)) (CodeEl i c)
                  else CodeEl i c)
            else (if linked tx
                  then AnchorEl i (the (href tx)) ''_blank'' ''noopener noreferrer''
                         (span_style (annotations tx)) (SpanEl i (span_style (annotations tx)) c)
                  else SpanEl i (span_style (annotations tx)) c))"
  by (simp add: render_span_def linked_def Let_def split: option.split)

lemma render_span_no_text: "text_content tx = None \<Longrightarrow> render_span tx i = Inl TypeError"
  by (simp add: render_span_def)



lemma map_spans_fail:
  "\<not> list_all (\<lambda>t. text_content t \<noteq> None) ts \<Longrightarrow> map_spans ts i = Inl TypeError"
proof (induction ts arbitrary: i)
  case Nil
  then show ?case by simp
next
  case (Cons tx ts)
  show ?case
  proof (cases "text_content tx")
    case None
    then show ?thesis by (simp add: render_span_no_text)
  next
    case (Some c)
    with Cons.prems have "\<not> list_all (\<lambda>t. text_content t \<noteq> None) ts" by simp
    from Cons.IH [OF this] show ?thesis
      by (simp add: render_span_result [OF Some])
  qed
qed







text \<open>
  Claim C10, as amended. The style the formatter builds for a span with both
  underline and strikethrough set has the decoration \<^verbatim>\<open>underline\<close>, and the
  decoration is \<^verbatim>\<open>line-through\<close> exactly when strikethrough is set and underline
  is not. For a span with a \<^verbatim>\<open>text\<close> object that style is attached to the plain
  span element and to the link; a code span without hyperlink is a bare code
  element with no style attached.
\<close>

theorem underline_wins:
  "(underline a \<and> strikethrough a \<longrightarrow> textDecoration (span_style a) = ''underline'')
   \<and> (textDecoration (span_style a) = ''line-through'' \<longleftrightarrow> strikethrough a \<and> \<not> underline a)
   \<and> (text_content tx = Some c \<longrightarrow>
        (\<exists>f. render_span tx i = Inr f
           \<and> inline_styles f =
               (if code (annotations tx)
                then (if linked tx then [span_style (annotations tx)] else [])
                else (if linked tx
                      then [span_style (annotations tx), span_style (annotations tx)]
                      else [span_style (annotations tx)]))))"
proof (intro conjI impI)
  assume "underline a \<and> strikethrough a"
  then show "textDecoration (span_style a) = ''underline''"
    by (simp add: span_style_def)
next
  show "textDecoration (span_style a) = ''line-through'' \<longleftrightarrow> strikethrough a \<and> \<not> underline a"
    by (simp add: span_style_def)
next
  assume c: "text_content tx = Some c"
  show "\<exists>f. render_span tx i = Inr f
           \<and> inline_styles f =
               (if code (annotations tx)
                then (if linked tx then [span_style (annotations tx)] else [])
                else (if linked tx
                      then [span_style (annotations tx), span_style (annotations tx)]
                      else [span_style (annotations tx)]))"
    unfolding render_span_result [OF c] by simp
qed

theorem underline_wins_witness:
  "underline (annotations struck_underlined) \<and> strikethrough (annotations struck_underlined)
   \<and> textDecoration (span_style (annotations struck_underlined)) = ''underline''
   \<and> text_content struck_underlined = Some ''old''
   \<and> (\<exists>f. render_span struck_underlined 0 = Inr f
         \<and> inline_styles f = [span_style (annotations struck_underlined)])"
proof -
  have u: "underline (annotations struck_underlined) \<and> strikethrough (annotations struck_underlined)
           \<and> text_content struck_underlined = Some ''old''
           \<and> \<not> code (annotations struck_underlined) \<and> \<not> linked struck_underlined"
    by (simp add: struck_underlined_def plain_annotations_def linked_def)
  from underline_wins [where a = "annotations struck_underlined" and tx = struck_underlined
                         and c = "''old''" and i = 0]
  show ?thesis using u by simp
qed

text \<open>
  The claim as it was stated, that underline is applied to every span with both
  annotations, fails for a code span without hyperlink: its fragment is the bare
  code element, to which no decoration is applied.
\<close>

theorem underline_code_counterexample:
  "underline (annotations struck_code) \<and> strikethrough (annotations struck_code)
   \<and> renderRichText (Some [struck_code]) = Inr (Some [CodeEl 0 ''old''])
   \<and> inline_styles (CodeEl 0 ''old'') = []"
  by (simp add: renderRichText_def render_span_def struck_code_def plain_annotations_def)

lemma render_plain_span:
  "renderRichText (Some [plain_span s]) = Inr (Some [SpanEl 0 (span_style plain_annotations) s])"
  by (simp add: renderRichText_def render_span_def plain_span_def plain_annotations_def)

section \<open>Properties of the block renderer and the diagram renderer\<close>

lemma NotionBlockRenderer_code:
  "NotionBlockRenderer (Block i ''code'' (Some d) cs) =
     (case code_text d of
        Inl e \<Rightarrow> Inl e
      | Inr src \<Rightarrow> Inr (Some (if language d = Some ''mermaid'' then MermaidV src
                               else CodeBlockV (language d) src)))"
  by (simp add: block_view_def split: sum.split)

lemma NotionBlockRenderer_paragraph:
  "NotionBlockRenderer (text_block i ''paragraph'' s None) =
     Inr (Some (ParagraphV (Some [SpanEl 0 (span_style plain_annotations) s]) None))"
  by (simp add: text_block_def block_view_def text_payload_def render_plain_span on_value_def)

lemma render_each_append:
  "render_each (xs @ ys) =
     (case render_each xs of
        Inl e \<Rightarrow> Inl e
      | Inr vs \<Rightarrow> (case render_each ys of Inl e \<Rightarrow> Inl e | Inr ws \<Rightarrow> Inr (vs @ ws)))"
  by (induction xs) (simp_all split: sum.split)

lemma mermaid_payload_text:
  "language mermaid_payload = Some ''mermaid''"
  "rich_text mermaid_payload = Some [plain_span ''graph TD;'', plain_span ''A-->B'']"
  "join (map plain_text [plain_span ''graph TD;'', plain_span ''A-->B'']) = ''graph TD;A-->B''"
  by (simp_all add: mermaid_payload_def empty_payload_def plain_span_def join_def)

text \<open>
  Claim C4. A code block whose language is \<^verbatim>\<open>mermaid\<close> is never rendered as the
  labelled source-code block, whatever its text; when it has spans, the result is
  the diagram element for the concatenation of their plain text. A code block
  with any other language and with spans is rendered as the labelled block with
  that language and the concatenated plain text.
\<close>

theorem code_block_dispatch:
  "(language d = Some ''mermaid'' \<longrightarrow>
      (\<forall>lang src. NotionBlockRenderer (Block i ''code'' (Some d) cs) \<noteq> Inr (Some (CodeBlockV lang src)))
      \<and> (rich_text d = Some rt \<longrightarrow>
           NotionBlockRenderer (Block i ''code'' (Some d) cs)
             = Inr (Some (MermaidV (join (map plain_text rt))))))
   \<and> (language d \<noteq> Some ''mermaid'' \<and> rich_text d = Some rt \<longrightarrow>
        NotionBlockRenderer (Block i ''code'' (Some d) cs)
          = Inr (Some (CodeBlockV (language d) (join (map plain_text rt)))))"
  unfolding NotionBlockRenderer_code
  by (simp add: code_text_def split: option.split)

theorem code_block_dispatch_witness:
  "language mermaid_payload = Some ''mermaid''
   \<and> rich_text mermaid_payload = Some [plain_span ''graph TD;'', plain_span ''A-->B'']
   \<and> NotionBlockRenderer (Block ''d1'' ''code'' (Some mermaid_payload) None)
       = Inr (Some (MermaidV ''graph TD;A-->B''))
   \<and> language typescript_payload \<noteq> Some ''mermaid''
   \<and> rich_text typescript_payload = Some [plain_span ''let x'']
   \<and> NotionBlockRenderer (Block ''s1'' ''code'' (Some typescript_payload) None)
       = Inr (Some (CodeBlockV (Some ''typescript'') ''let x''))"
proof -
  have t: "language typescript_payload = Some ''typescript''
           \<and> rich_text typescript_payload = Some [plain_span ''let x'']
           \<and> join (map plain_text [plain_span ''let x'']) = ''let x''"
    by (simp add: typescript_payload_def empty_payload_def plain_span_def join_def)
  have m: "NotionBlockRenderer (Block ''d1'' ''code'' (Some mermaid_payload) None)
             = Inr (Some (MermaidV (join (map plain_text
                                          [plain_span ''graph TD;'', plain_span ''A-->B'']))))"
    using code_block_dispatch [of mermaid_payload "''d1''" None
                                  "[plain_span ''graph TD;'', plain_span ''A-->B'']"]
          mermaid_payload_text(1,2)
    by blast
  have "language typescript_payload \<noteq> Some ''mermaid''"
    using t by simp
  then have s: "NotionBlockRenderer (Block ''s1'' ''code'' (Some typescript_payload) None)
             = Inr (Some (CodeBlockV (language typescript_payload)
                            (join (map plain_text [plain_span ''let x'']))))"
    using code_block_dispatch [of typescript_payload "''s1''" None "[plain_span ''let x'']"] t
    by blast
  show ?thesis
    using m s t by (simp add: mermaid_payload_text plain_span_def join_def
        del: NotionBlockRenderer.simps)
qed

lemma renderChart_sticky: "error_shown st \<Longrightarrow> renderChart r c st = st"
  by (simp add: renderChart_def ref_current_def)

lemma renderChart_fail:
  "r c = Inl e \<Longrightarrow> Mermaid_view (renderChart r c st) = ErrorNotice ''Diagram preview unavailable''
     \<or> (error_shown st \<and> renderChart r c st = st)"
  by (simp add: renderChart_def ref_current_def Mermaid_view_def error_shown_def)

lemma Mermaid_run_snoc:
  "Mermaid_run r (cs @ [c]) = renderChart r c (Mermaid_run r cs)"
  by (simp add: Mermaid_run_def)

text \<open>The only error notice a diagram component ever shows.\<close>

lemma Mermaid_run_error:
  "error_shown (Mermaid_run r cs) \<Longrightarrow>
     Mermaid_view (Mermaid_run r cs) = ErrorNotice ''Diagram preview unavailable''"
proof (induction cs rule: rev_induct)
  case Nil
  then show ?case by (simp add: Mermaid_run_def Mermaid_initial_def error_shown_def)
next
  case (snoc c cs)
  show ?case
  proof (cases "error_shown (Mermaid_run r cs)")
    case True
    then show ?thesis using snoc.IH by (simp add: Mermaid_run_snoc renderChart_sticky)
  next
    case False
    then show ?thesis using snoc.prems
      by (auto simp: Mermaid_run_snoc renderChart_def ref_current_def Mermaid_view_def error_shown_def
          split: sum.splits)
  qed
qed

lemma Mermaid_run_fail:
  "r c = Inl e \<Longrightarrow>
     Mermaid_view (Mermaid_run r (cs @ [c])) = ErrorNotice ''Diagram preview unavailable''"
  using renderChart_fail [of r c e "Mermaid_run r cs"] Mermaid_run_error [of r cs]
  by (auto simp: Mermaid_run_snoc)

text \<open>
  Claim C5, as amended. For a diagram block whose description makes the diagram
  compiler fail, the block renderer returns the diagram element and no error; the
  component catches the failure and shows the notice with the text
  \<^verbatim>\<open>Diagram preview unavailable\<close> and nothing else, whatever descriptions it was
  given before; and the blocks before and after it are rendered as they are
  without it.
\<close>

theorem diagram_failure_local:
  assumes "language d = Some ''mermaid''" and "rich_text d = Some rt"
    and "mermaid_render (join (map plain_text rt)) = Inl e"
  shows "NotionBlockRenderer (Block i ''code'' (Some d) cs)
           = Inr (Some (MermaidV (join (map plain_text rt))))
       \<and> Mermaid_view (Mermaid_run mermaid_render (earlier @ [join (map plain_text rt)]))
           = ErrorNotice ''Diagram preview unavailable''
       \<and> render_each (before @ Block i ''code'' (Some d) cs # after) =
           (case render_each before of
              Inl e \<Rightarrow> Inl e
            | Inr vs \<Rightarrow>
                (case render_each after of
                   Inl e \<Rightarrow> Inl e
                 | Inr ws \<Rightarrow> Inr (vs @ Some (MermaidV (join (map plain_text rt))) # ws)))"
proof -
  have b: "NotionBlockRenderer (Block i ''code'' (Some d) cs)
           = Inr (Some (MermaidV (join (map plain_text rt))))"
    unfolding NotionBlockRenderer_code using assms(1,2) by (simp add: code_text_def)
  have m: "Mermaid_view (Mermaid_run mermaid_render (earlier @ [join (map plain_text rt)]))
           = ErrorNotice ''Diagram preview unavailable''"
    using assms(3) by (rule Mermaid_run_fail)
  have "render_each (Block i ''code'' (Some d) cs # after) =
          (case render_each after of
             Inl e \<Rightarrow> Inl e
           | Inr ws \<Rightarrow> Inr (Some (MermaidV (join (map plain_text rt))) # ws))"
    using b by (simp del: NotionBlockRenderer.simps)
  then have p: "render_each (before @ Block i ''code'' (Some d) cs # after) =
           (case render_each before of
              Inl e \<Rightarrow> Inl e
            | Inr vs \<Rightarrow>
                (case render_each after of
                   Inl e \<Rightarrow> Inl e
                 | Inr ws \<Rightarrow> Inr (vs @ Some (MermaidV (join (map plain_text rt))) # ws)))"
    by (simp add: render_each_append del: NotionBlockRenderer.simps render_each.simps
        split: sum.split)
  from b m p show ?thesis by (intro conjI)
qed

theorem diagram_failure_local_witness:
  "language mermaid_payload = Some ''mermaid''
   \<and> rich_text mermaid_payload = Some [plain_span ''graph TD;'', plain_span ''A-->B'']
   \<and> failing_render ''graph TD;A-->B'' = Inl RenderError
   \<and> NotionBlockRenderer (Block ''d1'' ''code'' (Some mermaid_payload) None)
       = Inr (Some (MermaidV ''graph TD;A-->B''))
   \<and> Mermaid_view (Mermaid_run failing_render [''graph TD;A-->B''])
       = ErrorNotice ''Diagram preview unavailable''
   \<and> render_each [text_block ''p1'' ''paragraph'' ''hello'' None,
                   Block ''d1'' ''code'' (Some mermaid_payload) None,
                   text_block ''p2'' ''paragraph'' ''bye'' None]
       = Inr [Some (ParagraphV (Some [SpanEl 0 (span_style plain_annotations) ''hello'']) None),
              Some (MermaidV ''graph TD;A-->B''),
              Some (ParagraphV (Some [SpanEl 0 (span_style plain_annotations) ''bye'']) None)]"
proof -
  have f: "failing_render (join (map plain_text [plain_span ''graph TD;'', plain_span ''A-->B'']))
             = Inl RenderError"
    by (simp add: failing_render_def)
  have p: "render_each [text_block ''p1'' ''paragraph'' ''hello'' None]
             = Inr [Some (ParagraphV (Some [SpanEl 0 (span_style plain_annotations) ''hello'']) None)]"
          "render_each [text_block ''p2'' ''paragraph'' ''bye'' None]
             = Inr [Some (ParagraphV (Some [SpanEl 0 (span_style plain_annotations) ''bye'']) None)]"
    by (simp_all add: NotionBlockRenderer_paragraph)
  from diagram_failure_local
         [where d = mermaid_payload
            and rt = "[plain_span ''graph TD;'', plain_span ''A-->B'']"
            and mermaid_render = failing_render and e = RenderError
            and i = "''d1''" and cs = None and earlier = "[]"
            and before = "[text_block ''p1'' ''paragraph'' ''hello'' None]"
            and after = "[text_block ''p2'' ''paragraph'' ''bye'' None]",
          OF mermaid_payload_text(1) mermaid_payload_text(2) f]
  show ?thesis
    by (simp add: mermaid_payload_text p failing_render_def plain_span_def join_def
        del: NotionBlockRenderer.simps render_each.simps)
qed

text \<open>
  The claim as it was stated names the notice text in lower case; the text the
  component shows begins with a capital letter.
\<close>

theorem diagram_notice_counterexample:
  "Mermaid_view (Mermaid_run failing_render [''graph TD;A-->B''])
     = ErrorNotice ''Diagram preview unavailable''
   \<and> Mermaid_view (Mermaid_run failing_render [''graph TD;A-->B''])
     \<noteq> ErrorNotice ''diagram preview unavailable''"
  by (simp add: Mermaid_run_def renderChart_def ref_current_def error_shown_def Mermaid_initial_def
      Mermaid_view_def failing_render_def)

section \<open>Properties of the scroll-spy and the navigator\<close>

lemma observer_callback_active:
  "activeSection (observer_callback entries s) =
     (case filter fst entries of [] \<Rightarrow> activeSection s | x # xs \<Rightarrow> snd (last (x # xs)))"
proof (induction entries arbitrary: s)
  case Nil
  show ?case by (simp add: observer_callback_def)
next
  case (Cons en entries)
  have u: "observer_callback (en # entries) s =
             observer_callback entries (if fst en then s\<lparr>activeSection := snd en\<rparr> else s)"
    by (simp add: observer_callback_def split: prod.split)
  show ?case unfolding u Cons.IH
    by (simp split: list.split)
qed

lemma at_most_one_match:
  "distinct (map f xs) \<Longrightarrow> length (filter (\<lambda>x. a = f x) xs) \<le> 1"
proof (induction xs)
  case Nil
  show ?case by simp
next
  case (Cons x xs)
  show ?case
  proof (cases "a = f x")
    case True
    with Cons.prems have "filter (\<lambda>y. a = f y) xs = []"
      by (auto simp: filter_empty_conv)
    with True show ?thesis by simp
  next
    case False
    with Cons show ?thesis by simp
  qed
qed

lemma entries_ids:
  "map hid (entries_in_document_order tree) = map block_id (filter listed (document_order tree))"
  by (simp add: entries_in_document_order_def entry_of_def comp_def)

text \<open>
  Claim C6. The navigation state is the one string \<^verbatim>\<open>activeSection\<close>. After any
  sequence of observer callbacks and clicks, from any state, two headings that
  are active have the same anchor identifier, and for the headings of a tree with
  distinct block identifiers at most one entry is active. A click on a heading
  whose element exists makes its identifier the active one, and an observer
  callback makes the identifier of its last intersecting entry the active one;
  either replaces the whole value.
\<close>

theorem single_active_heading:
  "(is_active (nav_run document_ids evs s0) h1 \<and> is_active (nav_run document_ids evs s0) h2
      \<longrightarrow> hid h1 = hid h2)
   \<and> (headings tree = Inr hs \<and> distinct (map block_id (document_order tree)) \<longrightarrow>
        length (filter (is_active (nav_run document_ids evs s0)) hs) \<le> 1)
   \<and> activeSection (nav_step document_ids s (Clicked i)) =
        (if i \<in> set document_ids then i else activeSection s)
   \<and> activeSection (nav_step document_ids s (Observed entries)) =
        (case filter fst entries of [] \<Rightarrow> activeSection s | x # xs \<Rightarrow> snd (last (x # xs)))"
proof (intro conjI impI)
  assume "is_active (nav_run document_ids evs s0) h1 \<and> is_active (nav_run document_ids evs s0) h2"
  then show "hid h1 = hid h2" by (auto simp: is_active_def)
next
  assume a: "headings tree = Inr hs \<and> distinct (map block_id (document_order tree))"
  then have "hs = entries_in_document_order tree"
    by (simp add: headings_characterised split: if_splits)
  then have "map hid hs = map block_id (filter listed (document_order tree))"
    by (simp add: entries_ids)
  moreover have "distinct (map block_id (filter listed (document_order tree)))"
    using a by (simp add: distinct_map_filter)
  ultimately have "distinct (map hid hs)" by simp
  then have "length (filter (\<lambda>h. activeSection (nav_run document_ids evs s0) = hid h) hs) \<le> 1"
    by (rule at_most_one_match)
  then show "length (filter (is_active (nav_run document_ids evs s0)) hs) \<le> 1"
    by (simp add: is_active_def [abs_def])
next
  show "activeSection (nav_step document_ids s (Clicked i)) =
        (if i \<in> set document_ids then i else activeSection s)"
    by (simp add: scrollToHeading_def)
next
  show "activeSection (nav_step document_ids s (Observed entries)) =
        (case filter fst entries of [] \<Rightarrow> activeSection s | x # xs \<Rightarrow> snd (last (x # xs)))"
    by (simp add: observer_callback_active)
qed

lemma nested_tree_headings:
  "headings nested_tree =
     Inr [\<lparr>hid = ''h1'', htext = ''Intro'', level = Some 1\<rparr>,
          \<lparr>hid = ''h3'', htext = ''Deep'', level = Some 3\<rparr>,
          \<lparr>hid = ''h2'', htext = ''Details'', level = Some 2\<rparr>]"
  by (simp add: headings_characterised nested_tree_readable nested_tree_entries)

lemma nested_tree_ids: "distinct (map block_id (document_order nested_tree))"
  by (simp add: nested_tree_order text_block_def)

lemma sample_navigation:
  "activeSection
     (nav_run [''h1'', ''h3'', ''h2'']
        [Clicked ''h1'', Observed [(True, ''h3''), (False, ''h2'')], Clicked ''zz'']
        initial_state) = ''h3''"
  by (simp add: nav_run_def scrollToHeading_def observer_callback_def initial_state_def)

theorem single_active_heading_witness:
  "headings nested_tree =
     Inr [\<lparr>hid = ''h1'', htext = ''Intro'', level = Some 1\<rparr>,
          \<lparr>hid = ''h3'', htext = ''Deep'', level = Some 3\<rparr>,
          \<lparr>hid = ''h2'', htext = ''Details'', level = Some 2\<rparr>]
   \<and> distinct (map block_id (document_order nested_tree))
   \<and> length (filter (is_active
         (nav_run [''h1'', ''h3'', ''h2'']
            [Clicked ''h1'', Observed [(True, ''h3''), (False, ''h2'')], Clicked ''zz'']
            initial_state))
        [\<lparr>hid = ''h1'', htext = ''Intro'', level = Some 1\<rparr>,
         \<lparr>hid = ''h3'', htext = ''Deep'', level = Some 3\<rparr>,
         \<lparr>hid = ''h2'', htext = ''Details'', level = Some 2\<rparr>]) \<le> 1
   \<and> filter (is_active
         (nav_run [''h1'', ''h3'', ''h2'']
            [Clicked ''h1'', Observed [(True, ''h3''), (False, ''h2'')], Clicked ''zz'']
            initial_state))
        [\<lparr>hid = ''h1'', htext = ''Intro'', level = Some 1\<rparr>,
         \<lparr>hid = ''h3'', htext = ''Deep'', level = Some 3\<rparr>,
         \<lparr>hid = ''h2'', htext = ''Details'', level = Some 2\<rparr>]
       = [\<lparr>hid = ''h3'', htext = ''Deep'', level = Some 3\<rparr>]"
proof -
  have one: "length (filter (is_active
         (nav_run [''h1'', ''h3'', ''h2'']
            [Clicked ''h1'', Observed [(True, ''h3''), (False, ''h2'')], Clicked ''zz'']
            initial_state))
        [\<lparr>hid = ''h1'', htext = ''Intro'', level = Some 1\<rparr>,
         \<lparr>hid = ''h3'', htext = ''Deep'', level = Some 3\<rparr>,
         \<lparr>hid = ''h2'', htext = ''Details'', level = Some 2\<rparr>]) \<le> 1"
    using single_active_heading
            [where tree = nested_tree and document_ids = "[''h1'', ''h3'', ''h2'']"
               and evs = "[Clicked ''h1'', Observed [(True, ''h3''), (False, ''h2'')], Clicked ''zz'']"
               and ?s0.0 = initial_state]
          nested_tree_headings nested_tree_ids
    by blast
  show ?thesis
    using one nested_tree_headings nested_tree_ids
    by (simp add: is_active_def sample_navigation)
qed

section \<open>Properties of the page orchestrator\<close>

lemma all_settled_simps:
  "all_settled \<lparr>blocks_request = Pending, details_request = Pending\<rparr> = False"
  "all_settled \<lparr>blocks_request = Fulfilled b, details_request = Pending\<rparr> = False"
  "all_settled \<lparr>blocks_request = Pending, details_request = Fulfilled d\<rparr> = False"
  "all_settled \<lparr>blocks_request = Fulfilled b, details_request = Fulfilled d\<rparr> = True"
  by (simp_all add: all_settled_def)

lemma step_article_changed:
  "step st ArticleChanged =
     ([(component st)\<lparr>loading := True\<rparr>],
      st\<lparr>component := (component st)\<lparr>loading := True\<rparr>,
         calls := calls st @ [\<lparr>blocks_request = Pending, details_request = Pending\<rparr>]\<rparr>)"
  by (simp add: Let_def)

text \<open>A settled call stays settled when a request of it settles later.\<close>

lemma all_settled_stays:
  "all_settled c \<Longrightarrow> blocks_request c = Pending \<Longrightarrow> all_settled (c\<lparr>blocks_request := settle r\<rparr>)"
  "all_settled c \<Longrightarrow> details_request c = Pending \<Longrightarrow> all_settled (c\<lparr>details_request := settle r'\<rparr>)"
  by (auto simp: all_settled_def settle_def split: settled.splits sum.splits)

lemma settled_call_old:
  "all_settled (calls st ! j) \<Longrightarrow>
     settled_call st j c' = ([], st\<lparr>component := component st, calls := (calls st)[j := c']\<rparr>)"
  by (simp add: settled_call_def)

lemma settled_call_waiting:
  "\<not> all_settled c' \<Longrightarrow>
     settled_call st j c' = ([], st\<lparr>component := component st, calls := (calls st)[j := c']\<rparr>)"
  by (simp add: settled_call_def)

lemma settled_call_joined:
  "\<not> all_settled (calls st ! j) \<Longrightarrow> all_settled c' \<Longrightarrow>
     settled_call st j c' =
       (resume c' (component st),
        st\<lparr>component := last (resume c' (component st)), calls := (calls st)[j := c']\<rparr>)"
  by (simp add: settled_call_def resume_def split: settled.splits)

lemma resume_fulfilled:
  "blocks_request c = Fulfilled b \<Longrightarrow> details_request c = Fulfilled d \<Longrightarrow>
     resume c s = [s\<lparr>blocks := b\<rparr>, s\<lparr>blocks := b, pageDetails := d\<rparr>,
                   s\<lparr>blocks := b, pageDetails := d, loading := False\<rparr>]"
  by (simp add: resume_def)

lemma list_all_update:
  "list_all P xs \<Longrightarrow> P y \<Longrightarrow> list_all P (xs[j := y])"
  by (induction xs arbitrary: j) (auto split: nat.splits)

lemma gate_invariantI:
  "length (calls st) = Suc k \<Longrightarrow> (\<forall>j < k. all_settled (calls st ! j)) \<Longrightarrow>
   no_rejection (calls st ! k) \<Longrightarrow> component st = expected s0 (calls st ! k) \<Longrightarrow>
   gate_invariant s0 k st"
  by (simp add: gate_invariant_def list_all_length)

lemma gate_invariantD:
  assumes "gate_invariant s0 k st"
  shows "length (calls st) = Suc k" and "\<And>j. j < k \<Longrightarrow> all_settled (calls st ! j)"
    and "no_rejection (calls st ! k)" and "component st = expected s0 (calls st ! k)"
  using assms by (simp_all add: gate_invariant_def list_all_length)

text \<open>An event that leaves call \<open>k\<close> and the component as they are.\<close>

lemma unchanged_step:
  assumes inv: "gate_invariant s0 k st"
    and st': "st' = st\<lparr>component := component st, calls := (calls st)[j := c']\<rparr>"
    and j: "j < k" and c': "all_settled c'"
  shows "gate_invariant s0 k st'" and "calls st' ! k = calls st ! k"
proof -
  note d = gate_invariantD [OF inv]
  show k: "calls st' ! k = calls st ! k" using j st' by simp
  show "gate_invariant s0 k st'"
  proof (rule gate_invariantI)
    show "length (calls st') = Suc k" using d(1) st' by simp
    show "\<forall>i < k. all_settled (calls st' ! i)"
    proof (intro allI impI)
      fix i assume i: "i < k"
      show "all_settled (calls st' ! i)"
      proof (cases "i = j")
        case True
        then show ?thesis using c' d(1) j st' by simp
      next
        case False
        then show ?thesis using d(2) [OF i] st' by simp
      qed
    qed
    show "no_rejection (calls st' ! k)" using d(3) k by simp
    show "component st' = expected s0 (calls st' ! k)" using d(4) k st' by simp
  qed
qed

text \<open>A request of call \<open>k\<close> is fulfilled.\<close>

lemma fulfilled_step:
  assumes inv: "gate_invariant s0 k st"
    and pend: "\<not> all_settled (calls st ! k)"
    and c': "no_rejection c'"
    and res: "settled_call st k c' = (cm, st')"
    and ex: "all_settled c' \<Longrightarrow>
               resume c' (s0\<lparr>loading := True\<rparr>) =
                 [s0\<lparr>loading := True, blocks := b\<rparr>,
                  s0\<lparr>loading := True, blocks := b, pageDetails := d\<rparr>,
                  expected s0 c']"
    and wait: "\<not> all_settled c' \<Longrightarrow> expected s0 c' = s0\<lparr>loading := True\<rparr>"
  shows "gate_invariant s0 k st'"
    and "\<forall>s \<in> set cm. loading s \<or> (s = component st' \<and> all_settled (calls st' ! k))"
proof -
  note d = gate_invariantD [OF inv]
  have now: "component st = s0\<lparr>loading := True\<rparr>"
    using pend d(3,4)
    by (auto simp: expected_def all_settled_def no_rejection_def split: settled.splits)
  have both: "gate_invariant s0 k st'
    \<and> (\<forall>s \<in> set cm. loading s \<or> (s = component st' \<and> all_settled (calls st' ! k)))"
  proof (cases "all_settled c'")
    case True
    have r: "cm = resume c' (component st)"
            "st' = st\<lparr>component := last (resume c' (component st)), calls := (calls st)[k := c']\<rparr>"
      using res unfolding settled_call_joined [OF pend True] by auto
    have k: "calls st' ! k = c'" using r(2) d(1) by simp
    have c: "component st' = expected s0 c'"
      using r(2) ex [OF True] now by simp
    have "gate_invariant s0 k st'"
    proof (rule gate_invariantI)
      show "length (calls st') = Suc k" using d(1) r(2) by simp
      show "\<forall>i < k. all_settled (calls st' ! i)" using d(2) r(2) by simp
      show "no_rejection (calls st' ! k)" using c' k by simp
      show "component st' = expected s0 (calls st' ! k)" using c k by simp
    qed
    moreover have "\<forall>s \<in> set cm. loading s \<or> (s = component st' \<and> all_settled (calls st' ! k))"
      using r(1) ex [OF True] now c k True by simp
    ultimately show ?thesis by simp
  next
    case False
    have r: "cm = []"
            "st' = st\<lparr>component := component st, calls := (calls st)[k := c']\<rparr>"
      using res unfolding settled_call_waiting [OF False] by auto
    have k: "calls st' ! k = c'" using r(2) d(1) by simp
    have "gate_invariant s0 k st'"
    proof (rule gate_invariantI)
      show "length (calls st') = Suc k" using d(1) r(2) by simp
      show "\<forall>i < k. all_settled (calls st' ! i)" using d(2) r(2) by simp
      show "no_rejection (calls st' ! k)" using c' k by simp
      show "component st' = expected s0 (calls st' ! k)"
        using k r(2) now wait [OF False] by simp
    qed
    then show ?thesis using r(1) by simp
  qed
  from both show "gate_invariant s0 k st'" by simp
  from both show "\<forall>s \<in> set cm. loading s \<or> (s = component st' \<and> all_settled (calls st' ! k))"
    by simp
qed


lemma step_blocks:
  assumes inv: "gate_invariant s0 k st" and ev: "follows k (BlocksSettled j r)"
  shows "gate_invariant s0 k (snd (step st (BlocksSettled j r)))
    \<and> (\<forall>s \<in> set (fst (step st (BlocksSettled j r))).
          loading s \<or> (s = component (snd (step st (BlocksSettled j r)))
                        \<and> all_settled (calls (snd (step st (BlocksSettled j r))) ! k)))
    \<and> (all_settled (calls st ! k) \<longrightarrow>
          calls (snd (step st (BlocksSettled j r))) ! k = calls st ! k)"
proof -
  note d = gate_invariantD [OF inv]
  let ?c' = "(calls st ! j)\<lparr>blocks_request := settle r\<rparr>"
  show ?thesis
  proof (cases "j < length (calls st) \<and> blocks_request (calls st ! j) = Pending")
    case False
    then have "step st (BlocksSettled j r) = ([], st)" by auto
    then show ?thesis using inv by simp
  next
    case True
    then have st: "step st (BlocksSettled j r) = settled_call st j ?c'" by simp
    show ?thesis
    proof (cases "j = k")
      case False
      with True d(1) have j: "j < k" by simp
      have old: "all_settled (calls st ! j)" by (rule d(2) [OF j])
      have new: "all_settled ?c'" using old True by (simp add: all_settled_stays(1))
      have r: "step st (BlocksSettled j r)
                 = ([], st\<lparr>component := component st, calls := (calls st)[j := ?c']\<rparr>)"
        unfolding st by (rule settled_call_old [OF old])
      from unchanged_step [OF inv refl j new] show ?thesis
        unfolding r by simp
    next
      case jk: True
      from ev jk obtain b where b: "r = Inr b" by (cases r) simp_all
      have pend: "\<not> all_settled (calls st ! k)"
        using True d(3) jk
        by (auto simp: all_settled_def no_rejection_def split: settled.splits)
      have nr: "no_rejection ?c'"
        using d(3) jk b by (auto simp: no_rejection_def settle_def split: settled.splits)
      obtain cm st' where res: "settled_call st k ?c' = (cm, st')"
        by (cases "settled_call st k ?c'") simp
      have stk: "step st (BlocksSettled j r) = (cm, st')"
        using st jk res by simp
      have ex: "all_settled ?c' \<Longrightarrow>
               resume ?c' (s0\<lparr>loading := True\<rparr>) =
                 [s0\<lparr>loading := True, blocks := b\<rparr>,
                  s0\<lparr>loading := True, blocks := b, pageDetails := the_details\<rparr>,
                  expected s0 ?c']"
        if "details_request (calls st ! j) = Fulfilled the_details" for the_details
        using that b by (simp add: resume_def expected_def settle_def)
      show ?thesis
      proof (cases "details_request (calls st ! j)")
        case Pending
        have w: "\<not> all_settled ?c'" using Pending b by (simp add: all_settled_def settle_def)
        have e: "expected s0 ?c' = s0\<lparr>loading := True\<rparr>"
          using Pending b by (simp add: expected_def settle_def)
        from fulfilled_step [OF inv pend nr res, of b None] w e
        show ?thesis using pend unfolding stk by simp
      next
        case (Fulfilled dd)
        have a: "all_settled ?c'" using Fulfilled b by (simp add: all_settled_def settle_def)
        from fulfilled_step [OF inv pend nr res, of b dd] ex [OF Fulfilled] a
        show ?thesis using pend unfolding stk by simp
      next
        case (Rejected x)
        then show ?thesis using d(3) jk by (simp add: no_rejection_def split: settled.splits)
      qed
    qed
  qed
qed

lemma step_details:
  assumes inv: "gate_invariant s0 k st" and ev: "follows k (DetailsSettled j r)"
  shows "gate_invariant s0 k (snd (step st (DetailsSettled j r)))
    \<and> (\<forall>s \<in> set (fst (step st (DetailsSettled j r))).
          loading s \<or> (s = component (snd (step st (DetailsSettled j r)))
                        \<and> all_settled (calls (snd (step st (DetailsSettled j r))) ! k)))
    \<and> (all_settled (calls st ! k) \<longrightarrow>
          calls (snd (step st (DetailsSettled j r))) ! k = calls st ! k)"
proof -
  note d = gate_invariantD [OF inv]
  let ?c' = "(calls st ! j)\<lparr>details_request := settle r\<rparr>"
  show ?thesis
  proof (cases "j < length (calls st) \<and> details_request (calls st ! j) = Pending")
    case False
    then have "step st (DetailsSettled j r) = ([], st)" by auto
    then show ?thesis using inv by simp
  next
    case True
    then have st: "step st (DetailsSettled j r) = settled_call st j ?c'" by simp
    show ?thesis
    proof (cases "j = k")
      case False
      with True d(1) have j: "j < k" by simp
      have old: "all_settled (calls st ! j)" by (rule d(2) [OF j])
      have new: "all_settled ?c'" using old True by (simp add: all_settled_stays(2))
      have r: "step st (DetailsSettled j r)
                 = ([], st\<lparr>component := component st, calls := (calls st)[j := ?c']\<rparr>)"
        unfolding st by (rule settled_call_old [OF old])
      from unchanged_step [OF inv refl j new] show ?thesis
        unfolding r by simp
    next
      case jk: True
      from ev jk obtain dd where b: "r = Inr dd" by (cases r) simp_all
      have pend: "\<not> all_settled (calls st ! k)"
        using True d(3) jk
        by (auto simp: all_settled_def no_rejection_def split: settled.splits)
      have nr: "no_rejection ?c'"
        using d(3) jk b by (auto simp: no_rejection_def settle_def split: settled.splits)
      obtain cm st' where res: "settled_call st k ?c' = (cm, st')"
        by (cases "settled_call st k ?c'") simp
      have stk: "step st (DetailsSettled j r) = (cm, st')"
        using st jk res by simp
      have ex: "all_settled ?c' \<Longrightarrow>
               resume ?c' (s0\<lparr>loading := True\<rparr>) =
                 [s0\<lparr>loading := True, blocks := the_blocks\<rparr>,
                  s0\<lparr>loading := True, blocks := the_blocks, pageDetails := dd\<rparr>,
                  expected s0 ?c']"
        if "blocks_request (calls st ! j) = Fulfilled the_blocks" for the_blocks
        using that b by (simp add: resume_def expected_def settle_def)
      show ?thesis
      proof (cases "blocks_request (calls st ! j)")
        case Pending
        have w: "\<not> all_settled ?c'" using Pending b by (simp add: all_settled_def settle_def)
        have e: "expected s0 ?c' = s0\<lparr>loading := True\<rparr>"
          using Pending b by (simp add: expected_def settle_def)
        from fulfilled_step [OF inv pend nr res, of "[]" dd] w e
        show ?thesis using pend unfolding stk by simp
      next
        case (Fulfilled bb)
        have a: "all_settled ?c'" using Fulfilled b by (simp add: all_settled_def settle_def)
        from fulfilled_step [OF inv pend nr res, of bb dd] ex [OF Fulfilled] a
        show ?thesis using pend unfolding stk by simp
      next
        case (Rejected x)
        then show ?thesis using d(3) jk by (simp add: no_rejection_def split: settled.splits)
      qed
    qed
  qed
qed


lemma step_follows:
  assumes inv: "gate_invariant s0 k st" and ev: "follows k e"
  shows "gate_invariant s0 k (snd (step st e))"
    and "\<forall>s \<in> set (fst (step st e)).
           loading s \<or> (s = component (snd (step st e)) \<and> all_settled (calls (snd (step st e)) ! k))"
    and "all_settled (calls st ! k) \<Longrightarrow> calls (snd (step st e)) ! k = calls st ! k"
proof -
  have "gate_invariant s0 k (snd (step st e))
    \<and> (\<forall>s \<in> set (fst (step st e)).
          loading s \<or> (s = component (snd (step st e)) \<and> all_settled (calls (snd (step st e)) ! k)))
    \<and> (all_settled (calls st ! k) \<longrightarrow> calls (snd (step st e)) ! k = calls st ! k)"
  proof (cases e)
    case ArticleChanged
    with ev show ?thesis by simp
  next
    case (BlocksSettled j r)
    with ev step_blocks [OF inv, of j r] show ?thesis by simp
  next
    case (DetailsSettled j r)
    with ev step_details [OF inv, of j r] show ?thesis by simp
  qed
  then show "gate_invariant s0 k (snd (step st e))"
    and "\<forall>s \<in> set (fst (step st e)).
           loading s \<or> (s = component (snd (step st e)) \<and> all_settled (calls (snd (step st e)) ! k))"
    and "all_settled (calls st ! k) \<Longrightarrow> calls (snd (step st e)) ! k = calls st ! k"
    by simp_all
qed

lemma run_follows:
  "gate_invariant s0 k st \<Longrightarrow> list_all (follows k) evs \<Longrightarrow>
     gate_invariant s0 k (run st evs)
     \<and> (all_settled (calls st ! k) \<longrightarrow> calls (run st evs) ! k = calls st ! k)
     \<and> (\<forall>s \<in> set (trace st evs). loading s \<or> s = component (run st evs))"
proof (induction evs arbitrary: st)
  case Nil
  then show ?case by simp
next
  case (Cons e evs)
  from Cons.prems have ev: "follows k e" and rest: "list_all (follows k) evs" by simp_all
  let ?st' = "snd (step st e)"
  note one = step_follows [OF Cons.prems(1) ev]
  note ih = Cons.IH [OF one(1) rest]
  have inv: "gate_invariant s0 k (run st (e # evs))" using ih by simp
  have keep: "all_settled (calls st ! k) \<longrightarrow> calls (run st (e # evs)) ! k = calls st ! k"
    using ih one(3) by simp
  have "\<forall>s \<in> set (fst (step st e)). loading s \<or> s = component (run ?st' evs)"
  proof
    fix s assume s: "s \<in> set (fst (step st e))"
    show "loading s \<or> s = component (run ?st' evs)"
    proof (cases "loading s")
      case True
      then show ?thesis by simp
    next
      case False
      with one(2) s have c: "s = component ?st'" and a: "all_settled (calls ?st' ! k)" by auto
      from ih a have "calls (run ?st' evs) ! k = calls ?st' ! k" by simp
      moreover have "component (run ?st' evs) = expected s0 (calls (run ?st' evs) ! k)"
        using ih by (simp add: gate_invariant_def)
      moreover have "component ?st' = expected s0 (calls ?st' ! k)"
        using one(1) by (simp add: gate_invariant_def)
      ultimately show ?thesis using c by simp
    qed
  qed
  with ih have "\<forall>s \<in> set (trace st (e # evs)). loading s \<or> s = component (run st (e # evs))"
    by auto
  with inv keep show ?case by simp
qed

lemma started:
  "quiet st \<Longrightarrow> gate_invariant (component st) (length (calls st)) (snd (step st ArticleChanged))"
  by (rule gate_invariantI)
     (simp_all add: quiet_def list_all_length nth_append no_rejection_def expected_def Let_def)

lemma run_one_settled:
  "run st [ArticleChanged, BlocksSettled (length (calls st)) (Inr b)] =
     st\<lparr>component := (component st)\<lparr>loading := True\<rparr>,
        calls := calls st @ [\<lparr>blocks_request = Fulfilled b, details_request = Pending\<rparr>]\<rparr>"
  "run st [ArticleChanged, DetailsSettled (length (calls st)) (Inr d)] =
     st\<lparr>component := (component st)\<lparr>loading := True\<rparr>,
        calls := calls st @ [\<lparr>blocks_request = Pending, details_request = Fulfilled d\<rparr>]\<rparr>"
  by (simp_all add: Let_def settled_call_def settle_def all_settled_simps resume_def)

lemma run_both_settled:
  "run st [ArticleChanged, BlocksSettled (length (calls st)) (Inr b),
           DetailsSettled (length (calls st)) (Inr d)] =
     st\<lparr>component := (component st)\<lparr>blocks := b, pageDetails := d, loading := False\<rparr>,
        calls := calls st @ [\<lparr>blocks_request = Fulfilled b, details_request = Fulfilled d\<rparr>]\<rparr>"
  "run st [ArticleChanged, DetailsSettled (length (calls st)) (Inr d),
           BlocksSettled (length (calls st)) (Inr b)] =
     st\<lparr>component := (component st)\<lparr>blocks := b, pageDetails := d, loading := False\<rparr>,
        calls := calls st @ [\<lparr>blocks_request = Fulfilled b, details_request = Fulfilled d\<rparr>]\<rparr>"
  by (simp_all add: Let_def settled_call_def settle_def all_settled_simps resume_def)

lemma trace_both_settled:
  "trace st [ArticleChanged, BlocksSettled (length (calls st)) (Inr b),
             DetailsSettled (length (calls st)) (Inr d)] =
     [(component st)\<lparr>loading := True\<rparr>,
      (component st)\<lparr>loading := True, blocks := b\<rparr>,
      (component st)\<lparr>loading := True, blocks := b, pageDetails := d\<rparr>,
      (component st)\<lparr>blocks := b, pageDetails := d, loading := False\<rparr>]"
  "trace st [ArticleChanged, DetailsSettled (length (calls st)) (Inr d),
             BlocksSettled (length (calls st)) (Inr b)] =
     [(component st)\<lparr>loading := True\<rparr>,
      (component st)\<lparr>loading := True, blocks := b\<rparr>,
      (component st)\<lparr>loading := True, blocks := b, pageDetails := d\<rparr>,
      (component st)\<lparr>blocks := b, pageDetails := d, loading := False\<rparr>]"
  by (simp_all add: Let_def settled_call_def settle_def all_settled_simps resume_def)

lemma quiet_load:
  assumes "quiet st" and "list_all (follows (length (calls st))) evs"
  shows "component (run st (ArticleChanged # evs)) =
           expected (component st) (calls (run st (ArticleChanged # evs)) ! length (calls st))"
    and "\<forall>s \<in> set (trace st (ArticleChanged # evs)).
           loading s \<or> s = component (run st (ArticleChanged # evs))"
proof -
  note r = run_follows [OF started [OF assms(1)] assms(2)]
  from r show "component (run st (ArticleChanged # evs)) =
           expected (component st) (calls (run st (ArticleChanged # evs)) ! length (calls st))"
    by (simp add: gate_invariant_def)
  from r show "\<forall>s \<in> set (trace st (ArticleChanged # evs)).
           loading s \<or> s = component (run st (ArticleChanged # evs))"
    by (simp add: Let_def)
qed

text \<open>
  Claim C7, as amended. A change of the content identifier sets \<^verbatim>\<open>loading\<close> and
  adds a call whose two requests are both pending. When one request of that call
  has been fulfilled the result is kept with the call and the component is left
  as it is. When the second is fulfilled, in either order, the blocks are stored,
  then the details, then \<^verbatim>\<open>loading\<close> is cleared. When the change is made while no
  earlier load is in flight, no further change is made and no request of the call
  is rejected, then after any settling events the component is the one the
  specification asks for (\<^verbatim>\<open>loading\<close> set until both requests have settled, both results stored and
  \<^verbatim>\<open>loading\<close> cleared from then on), and every state committed on the way either
  has \<^verbatim>\<open>loading\<close> set or is that final component. A state with \<^verbatim>\<open>loading\<close> set
  presents the skeleton in the content area, whatever blocks it holds.
\<close>

theorem load_page_data_gate:
  "step st ArticleChanged =
     ([(component st)\<lparr>loading := True\<rparr>],
      st\<lparr>component := (component st)\<lparr>loading := True\<rparr>,
         calls := calls st @ [\<lparr>blocks_request = Pending, details_request = Pending\<rparr>]\<rparr>)
   \<and> run st [ArticleChanged, BlocksSettled (length (calls st)) (Inr b)] =
        st\<lparr>component := (component st)\<lparr>loading := True\<rparr>,
           calls := calls st @ [\<lparr>blocks_request = Fulfilled b, details_request = Pending\<rparr>]\<rparr>
   \<and> run st [ArticleChanged, DetailsSettled (length (calls st)) (Inr d)] =
        st\<lparr>component := (component st)\<lparr>loading := True\<rparr>,
           calls := calls st @ [\<lparr>blocks_request = Pending, details_request = Fulfilled d\<rparr>]\<rparr>
   \<and> run st [ArticleChanged, BlocksSettled (length (calls st)) (Inr b),
              DetailsSettled (length (calls st)) (Inr d)] =
        st\<lparr>component := (component st)\<lparr>blocks := b, pageDetails := d, loading := False\<rparr>,
           calls := calls st @ [\<lparr>blocks_request = Fulfilled b, details_request = Fulfilled d\<rparr>]\<rparr>
   \<and> run st [ArticleChanged, DetailsSettled (length (calls st)) (Inr d),
              BlocksSettled (length (calls st)) (Inr b)] =
        st\<lparr>component := (component st)\<lparr>blocks := b, pageDetails := d, loading := False\<rparr>,
           calls := calls st @ [\<lparr>blocks_request = Fulfilled b, details_request = Fulfilled d\<rparr>]\<rparr>
   \<and> trace st [ArticleChanged, BlocksSettled (length (calls st)) (Inr b),
                DetailsSettled (length (calls st)) (Inr d)] =
        [(component st)\<lparr>loading := True\<rparr>,
         (component st)\<lparr>loading := True, blocks := b\<rparr>,
         (component st)\<lparr>loading := True, blocks := b, pageDetails := d\<rparr>,
         (component st)\<lparr>blocks := b, pageDetails := d, loading := False\<rparr>]
   \<and> trace st [ArticleChanged, DetailsSettled (length (calls st)) (Inr d),
                BlocksSettled (length (calls st)) (Inr b)] =
        [(component st)\<lparr>loading := True\<rparr>,
         (component st)\<lparr>loading := True, blocks := b\<rparr>,
         (component st)\<lparr>loading := True, blocks := b, pageDetails := d\<rparr>,
         (component st)\<lparr>blocks := b, pageDetails := d, loading := False\<rparr>]
   \<and> (quiet st \<and> list_all (follows (length (calls st))) evs \<longrightarrow>
        component (run st (ArticleChanged # evs)) =
          expected (component st) (calls (run st (ArticleChanged # evs)) ! length (calls st))
        \<and> (\<forall>s \<in> set (trace st (ArticleChanged # evs)).
              loading s \<or> s = component (run st (ArticleChanged # evs))))
   \<and> (loading s \<longrightarrow> content_body s = Inr Skeleton)"
proof (intro conjI impI)
  show "step st ArticleChanged =
     ([(component st)\<lparr>loading := True\<rparr>],
      st\<lparr>component := (component st)\<lparr>loading := True\<rparr>,
         calls := calls st @ [\<lparr>blocks_request = Pending, details_request = Pending\<rparr>]\<rparr>)"
    by (rule step_article_changed)
next
  assume "quiet st \<and> list_all (follows (length (calls st))) evs"
  then show "component (run st (ArticleChanged # evs)) =
          expected (component st) (calls (run st (ArticleChanged # evs)) ! length (calls st))"
    using quiet_load(1) by blast
next
  assume "quiet st \<and> list_all (follows (length (calls st))) evs"
  then show "\<forall>s \<in> set (trace st (ArticleChanged # evs)).
              loading s \<or> s = component (run st (ArticleChanged # evs))"
    using quiet_load(2) by blast
next
  assume "loading s"
  then show "content_body s = Inr Skeleton" by (simp add: content_body_def)
qed (rule run_one_settled run_both_settled trace_both_settled)+

theorem load_page_data_gate_witness:
  "quiet fresh
   \<and> list_all (follows (length (calls fresh)))
        [DetailsSettled 0 (Inr None),
         BlocksSettled 0 (Inr [text_block ''p1'' ''paragraph'' ''hello'' None]),
         BlocksSettled 0 (Inr [])]
   \<and> component (run fresh
        [ArticleChanged, DetailsSettled 0 (Inr None),
         BlocksSettled 0 (Inr [text_block ''p1'' ''paragraph'' ''hello'' None]),
         BlocksSettled 0 (Inr [])])
      = initial_state\<lparr>blocks := [text_block ''p1'' ''paragraph'' ''hello'' None],
                      pageDetails := None, loading := False\<rparr>
   \<and> loading initial_state
   \<and> content_body initial_state = Inr Skeleton"
proof -
  note g = load_page_data_gate
          [where s = initial_state and st = fresh
             and evs = "[DetailsSettled 0 (Inr None),
                         BlocksSettled 0 (Inr [text_block ''p1'' ''paragraph'' ''hello'' None]),
                         BlocksSettled 0 (Inr [])]"]
  have q: "quiet fresh" by (simp add: quiet_def fresh_def)
  have f: "list_all (follows (length (calls fresh)))
        [DetailsSettled 0 (Inr None),
         BlocksSettled 0 (Inr [text_block ''p1'' ''paragraph'' ''hello'' None]),
         BlocksSettled 0 (Inr [])]"
    by simp
  have l: "loading initial_state" by (simp add: initial_state_def)
  have c: "calls (run fresh
        [ArticleChanged, DetailsSettled 0 (Inr None),
         BlocksSettled 0 (Inr [text_block ''p1'' ''paragraph'' ''hello'' None]),
         BlocksSettled 0 (Inr [])]) ! length (calls fresh)
      = \<lparr>blocks_request = Fulfilled [text_block ''p1'' ''paragraph'' ''hello'' None],
         details_request = Fulfilled None\<rparr>"
    by (simp add: fresh_def Let_def settled_call_def settle_def all_settled_def resume_def)
  from g q f have "component (run fresh
        [ArticleChanged, DetailsSettled 0 (Inr None),
         BlocksSettled 0 (Inr [text_block ''p1'' ''paragraph'' ''hello'' None]),
         BlocksSettled 0 (Inr [])])
      = expected (component fresh) (calls (run fresh
        [ArticleChanged, DetailsSettled 0 (Inr None),
         BlocksSettled 0 (Inr [text_block ''p1'' ''paragraph'' ''hello'' None]),
         BlocksSettled 0 (Inr [])]) ! length (calls fresh))"
    by blast
  then have r: "component (run fresh
        [ArticleChanged, DetailsSettled 0 (Inr None),
         BlocksSettled 0 (Inr [text_block ''p1'' ''paragraph'' ''hello'' None]),
         BlocksSettled 0 (Inr [])])
      = initial_state\<lparr>blocks := [text_block ''p1'' ''paragraph'' ''hello'' None],
                      pageDetails := None, loading := False\<rparr>"
    unfolding c by (simp add: expected_def fresh_def)
  from g l have k: "content_body initial_state = Inr Skeleton" by blast
  from q f r l k show ?thesis by (intro conjI)
qed

text \<open>
  The claim as it was stated, for every change, fails when a change is made
  while an earlier load is in flight: the earlier call clears \<^verbatim>\<open>loading\<close> while
  both requests of the later call are pending, and the later call then commits a
  state that is presented with the blocks of the second page and the details of
  the first. It fails for a rejected request, after which \<^verbatim>\<open>loading\<close> is cleared
  while the other request is pending. And while \<^verbatim>\<open>loading\<close> is set the outline of
  the sidebar still shows the headings of the blocks held, not a placeholder.
\<close>

theorem load_page_data_overlap_counterexample:
  "\<not> loading (component (run fresh
       [ArticleChanged, ArticleChanged,
        BlocksSettled 0 (Inr [text_block ''a1'' ''paragraph'' ''one'' None]),
        DetailsSettled 0 (Inr (Some page_one))]))
   \<and> calls (run fresh
       [ArticleChanged, ArticleChanged,
        BlocksSettled 0 (Inr [text_block ''a1'' ''paragraph'' ''one'' None]),
        DetailsSettled 0 (Inr (Some page_one))]) ! 1
      = \<lparr>blocks_request = Pending, details_request = Pending\<rparr>
   \<and> trace fresh
       [ArticleChanged, ArticleChanged,
        BlocksSettled 0 (Inr [text_block ''a1'' ''paragraph'' ''one'' None]),
        DetailsSettled 0 (Inr (Some page_one)),
        DetailsSettled 1 (Inr (Some page_two)),
        BlocksSettled 1 (Inr [text_block ''b1'' ''paragraph'' ''two'' None])] ! 5
      = initial_state\<lparr>blocks := [text_block ''b1'' ''paragraph'' ''two'' None],
                      pageDetails := Some page_one, loading := False\<rparr>
   \<and> content_body (initial_state\<lparr>blocks := [text_block ''b1'' ''paragraph'' ''two'' None],
                      pageDetails := Some page_one, loading := False\<rparr>)
      = Inr (ContentRoot
               [Some (ParagraphV (Some [SpanEl 0 (span_style plain_annotations) ''two'']) None)])
   \<and> \<not> loading (component (run fresh [ArticleChanged, BlocksSettled 0 (Inl FetchError)]))
   \<and> details_request (calls (run fresh [ArticleChanged, BlocksSettled 0 (Inl FetchError)]) ! 0)
      = Pending
   \<and> component (run fresh
       [ArticleChanged,
        BlocksSettled 0 (Inr [text_block ''h1'' ''heading_1'' ''Intro'' None]),
        DetailsSettled 0 (Inr None), ArticleChanged])
      = initial_state\<lparr>blocks := [text_block ''h1'' ''heading_1'' ''Intro'' None]\<rparr>
   \<and> loading (initial_state\<lparr>blocks := [text_block ''h1'' ''heading_1'' ''Intro'' None]\<rparr>)
   \<and> sidebar (initial_state\<lparr>blocks := [text_block ''h1'' ''heading_1'' ''Intro'' None]\<rparr>)
      = Inr (OutlineEntries [(\<lparr>hid = ''h1'', htext = ''Intro'', level = Some 1\<rparr>, False)])"
proof -
  have h: "headings [text_block ''h1'' ''heading_1'' ''Intro'' None]
             = Inr [\<lparr>hid = ''h1'', htext = ''Intro'', level = Some 1\<rparr>]"
    by (simp add: headings_def text_block_def text_payload_def plain_span_def join_def
        startsWith_def level_of_heading_kinds)
  have c: "content_body (initial_state\<lparr>blocks := [text_block ''b1'' ''paragraph'' ''two'' None],
                      pageDetails := Some page_one, loading := False\<rparr>)
      = Inr (ContentRoot
               [Some (ParagraphV (Some [SpanEl 0 (span_style plain_annotations) ''two'']) None)])"
    by (simp add: content_body_def NotionBlockRenderer_paragraph
        del: NotionBlockRenderer.simps)
  have s: "sidebar (initial_state\<lparr>blocks := [text_block ''h1'' ''heading_1'' ''Intro'' None]\<rparr>)
      = Inr (OutlineEntries [(\<lparr>hid = ''h1'', htext = ''Intro'', level = Some 1\<rparr>, False)])"
    by (simp add: sidebar_def h initial_state_def)
  show ?thesis
    unfolding c s
    by (simp add: fresh_def initial_state_def Let_def settled_call_def settle_def
        all_settled_def resume_def)
qed

section \<open>Properties of the content client\<close>

text \<open>
  Claim C8. The block-tree fetch and the page-metadata fetch return a value in
  every case and never an exception. With the API key missing, empty or a
  placeholder, with a thrown network error, with a response that is not OK and
  with a thrown parse error, the block-tree fetch returns the empty list and the
  page-metadata fetch returns the default \<^verbatim>\<open>null\<close>.
\<close>

theorem fetch_never_raises:
  "(\<exists>bs. getPageBlocks env_key fetch blockId = Inr bs)
   \<and> (\<exists>pd. getPageDetails env_key exchange = Inr pd)
   \<and> (env_key = None \<or> env_key = Some [] \<or> (\<exists>k. env_key = Some k \<and> str_includes k ''PLACEHOLDER'') \<longrightarrow>
        getPageBlocks env_key fetch blockId = Inr [] \<and> getPageDetails env_key exchange = Inr None)
   \<and> (env_key = Some k \<and> fetch (blocks_request_for k blockId) = Inl e \<longrightarrow>
        getPageBlocks env_key fetch blockId = Inr [])
   \<and> (env_key = Some k \<and> fetch (blocks_request_for k blockId) = Inr resp
        \<and> (\<not> ok resp \<or> json resp = Inl e) \<longrightarrow>
        getPageBlocks env_key fetch blockId = Inr [])
   \<and> (exchange = Inl e \<or> (\<exists>r. exchange = Inr r \<and> (\<not> ok r \<or> json r = Inl e)) \<longrightarrow>
        getPageDetails env_key exchange = Inr None)"
  by (auto simp: getPageBlocks_def getPageBlocks_try_def getPageDetails_def
      split: option.splits sum.splits)

theorem fetch_never_raises_witness:
  "getPageBlocks None (\<lambda>r. Inl FetchError) ''page1'' = Inr []
   \<and> getPageDetails None (Inl FetchError) = Inr None
   \<and> str_includes ''YOUR_PLACEHOLDER_KEY'' ''PLACEHOLDER''
   \<and> getPageBlocks (Some ''YOUR_PLACEHOLDER_KEY'') (\<lambda>r. Inl FetchError) ''page1'' = Inr []
   \<and> getPageBlocks (Some ''secret'') (\<lambda>r. Inl FetchError) ''page1'' = Inr []
   \<and> getPageBlocks (Some ''secret'') (\<lambda>r. Inr \<lparr>ok = False, json = Inr []\<rparr>) ''page1'' = Inr []
   \<and> getPageBlocks (Some ''secret'') (\<lambda>r. Inr \<lparr>ok = True, json = Inl JsonError\<rparr>) ''page1'' = Inr []
   \<and> getPageDetails (Some ''secret'') (Inr \<lparr>ok = False, json = Inl JsonError\<rparr>) = Inr None"
proof -
  have p: "str_includes ''YOUR_PLACEHOLDER_KEY'' ''PLACEHOLDER''"
    by (simp add: startsWith_def)
  from fetch_never_raises [where env_key = None and fetch = "\<lambda>r. Inl FetchError"
                             and blockId = "''page1''" and exchange = "Inl FetchError"]
  have a: "getPageBlocks None (\<lambda>r. Inl FetchError) ''page1'' = Inr []
           \<and> getPageDetails None (Inl FetchError) = Inr None"
    by blast
  from fetch_never_raises [where env_key = "Some ''YOUR_PLACEHOLDER_KEY''"
                             and fetch = "\<lambda>r. Inl FetchError" and blockId = "''page1''"] p
  have b: "getPageBlocks (Some ''YOUR_PLACEHOLDER_KEY'') (\<lambda>r. Inl FetchError) ''page1'' = Inr []"
    by blast
  from fetch_never_raises [where env_key = "Some ''secret''" and k = "''secret''"
                             and fetch = "\<lambda>r. Inl FetchError" and blockId = "''page1''"
                             and e = FetchError]
  have c: "getPageBlocks (Some ''secret'') (\<lambda>r. Inl FetchError) ''page1'' = Inr []"
    by blast
  from fetch_never_raises [where env_key = "Some ''secret''" and k = "''secret''"
                             and fetch = "\<lambda>r. Inr \<lparr>ok = False, json = Inr []\<rparr>"
                             and blockId = "''page1''"
                             and resp = "\<lparr>ok = False, json = Inr []\<rparr>"]
  have d: "getPageBlocks (Some ''secret'') (\<lambda>r. Inr \<lparr>ok = False, json = Inr []\<rparr>) ''page1''
             = Inr []"
    by simp
  from fetch_never_raises [where env_key = "Some ''secret''" and k = "''secret''"
                             and fetch = "\<lambda>r. Inr \<lparr>ok = True, json = Inl JsonError\<rparr>"
                             and blockId = "''page1''" and e = JsonError
                             and resp = "\<lparr>ok = True, json = Inl JsonError\<rparr>"]
  have e: "getPageBlocks (Some ''secret'') (\<lambda>r. Inr \<lparr>ok = True, json = Inl JsonError\<rparr>) ''page1''
             = Inr []"
    by simp
  from fetch_never_raises [where env_key = "Some ''secret''"
                             and exchange = "Inr \<lparr>ok = False, json = Inl JsonError\<rparr>"
                             and e = JsonError]
  have f: "getPageDetails (Some ''secret'') (Inr \<lparr>ok = False, json = Inl JsonError\<rparr>) = Inr None"
    by simp
  from p a b c d e f show ?thesis by (intro conjI) simp_all
qed

end
